theory Spec2Isabelle
  imports Main
begin

text \<open>
  The document analysis of the CodeLang language server, \<^verbatim>\<open>server/src/server.ts\<close>: the
  scan for function declarations, the scan for variable declarations, the validator of
  upper-case words and the completion and diagnostics handlers, with the patterns they
  run. Requests are handled one at a time; what a handler awaits (the client's settings)
  is the value it resolves to.
\<close>

section \<open>Strings\<close>

text \<open>
  A document is a \<^typ>\<open>string\<close>; a character stands for the code unit of the same
  number, so the documents of this development are the ones whose code units are below
  256. The white space of \<^verbatim>\<open>String.prototype.trim\<close> and of the pattern \<^verbatim>\<open>\s\<close>
  is the same set; in this range it is tab, line feed, vertical tab, form feed, carriage
  return, space and the no-break space.
\<close>

definition isSpace :: "char \<Rightarrow> bool" where
  "isSpace c = (of_char c \<in> {9, 10, 11, 12, 13, 32, 160 :: nat})"

definition between :: "nat \<Rightarrow> nat \<Rightarrow> nat \<Rightarrow> bool" where
  "between lo hi n = (lo \<le> n \<and> n \<le> hi)"

definition inRange :: "char \<Rightarrow> char \<Rightarrow> char \<Rightarrow> bool" where
  "inRange lo hi c = between (of_char lo) (of_char hi) (of_char c)"

text \<open>The word characters of \<^verbatim>\<open>\b\<close> and \<^verbatim>\<open>\w\<close>: \<^verbatim>\<open>[A-Za-z0-9_]\<close>.\<close>

definition isWordChar :: "char \<Rightarrow> bool" where
  "isWordChar c =
     (inRange CHR ''a'' CHR ''z'' c \<or> inRange CHR ''A'' CHR ''Z'' c \<or>
      inRange CHR ''0'' CHR ''9'' c \<or> c = CHR ''_'')"

text \<open>
  \<^verbatim>\<open>Canonicalize\<close> of a pattern with the flag \<^verbatim>\<open>i\<close> (and without \<^verbatim>\<open>u\<close>) compares
  upper-case forms, and never lets a character outside ASCII stand for an ASCII one. The
  patterns below hold ASCII characters only, so the upper-case form of the ASCII letters
  is all that matters.
\<close>

definition canonicalize :: "bool \<Rightarrow> char \<Rightarrow> nat" where
  "canonicalize ignoreCase c =
     (if ignoreCase \<and> inRange CHR ''a'' CHR ''z'' c then of_char c - 32 else of_char c)"

text \<open>\<^verbatim>\<open>s.trim()\<close>.\<close>

definition trim :: "string \<Rightarrow> string" where
  "trim s = rev (dropWhile isSpace (rev (dropWhile isSpace s)))"

text \<open>
  \<^verbatim>\<open>s.split(c)\<close> for a separator of one character: the pieces between the
  occurrences of \<open>c\<close>, so the empty string gives one empty piece.
\<close>

fun splitAcc :: "char \<Rightarrow> string \<Rightarrow> string \<Rightarrow> string list" where
  "splitAcc c cur [] = [rev cur]"
| "splitAcc c cur (x # xs) =
     (if x = c then rev cur # splitAcc c [] xs else splitAcc c (x # cur) xs)"

definition split_on :: "string \<Rightarrow> char \<Rightarrow> string list" where
  "split_on s c = splitAcc c [] s"

section \<open>The patterns of the source, and how a backtracking matcher runs them\<close>

datatype charset =
    Ranges "(char \<times> char) list"
  | WhiteSpace
  | Dot

text \<open>
  \<^verbatim>\<open>.\<close> is every character but a line terminator (line feed and carriage return in
  this range). A class \<^verbatim>\<open>[a-zA-Z_]\<close> is \<open>Ranges\<close> of its ranges, a single character
  being the range from itself to itself; under the flag \<^verbatim>\<open>i\<close> a character is in a class
  when its canonical form is the canonical form of a member: the character itself, or the
  same letter in the other case.
\<close>

fun inCharset :: "bool \<Rightarrow> charset \<Rightarrow> char \<Rightarrow> bool" where
  "inCharset ignoreCase (Ranges rs) c =
     list_ex (\<lambda>(lo, hi).
        inRange lo hi c \<or>
        (ignoreCase \<and>
         (inRange CHR ''a'' CHR ''z'' c \<and> between (of_char lo) (of_char hi) (of_char c - 32) \<or>
          inRange CHR ''A'' CHR ''Z'' c \<and> between (of_char lo) (of_char hi) (of_char c + 32)))) rs"
| "inCharset ignoreCase WhiteSpace c = isSpace c"
| "inCharset ignoreCase Dot c = (c \<noteq> CHR 0x0A \<and> c \<noteq> CHR 0x0D)"

datatype regex =
    Lit string
  | One charset
  | Rep charset nat
  | Opt regex
  | Alt regex regex
  | Seq regex regex
  | Grp nat regex
  | WordBoundary
  | NotBehind regex

type_synonym captures = "(nat \<times> nat \<times> nat) list"

text \<open>\<^verbatim>\<open>\b\<close> at position \<open>p\<close>: exactly one of the characters around \<open>p\<close> is a word character.\<close>

definition wordCharAt :: "string \<Rightarrow> nat \<Rightarrow> bool" where
  "wordCharAt s p = (p < length s \<and> isWordChar (s ! p))"

definition isWordBoundary :: "string \<Rightarrow> nat \<Rightarrow> bool" where
  "isWordBoundary s p = ((0 < p \<and> wordCharAt s (p - 1)) \<noteq> wordCharAt s p)"

definition litAt :: "bool \<Rightarrow> string \<Rightarrow> string \<Rightarrow> nat \<Rightarrow> bool" where
  "litAt ignoreCase s lit p =
     (map (canonicalize ignoreCase) (take (length lit) (drop p s)) = map (canonicalize ignoreCase) lit)"

text \<open>
  The matcher returns every way a pattern matches from a position, in the order in which
  a backtracking matcher tries them: the first element is the match it reports.
  \<^item> \<open>Lit\<close>: the characters of a literal, one after the other.
  \<^item> \<open>One cs\<close>: one character of a class.
  \<^item> \<open>Rep cs n\<close>: \<open>n\<close> or more characters of a class, greedy (\<^verbatim>\<open>*\<close> is \<open>Rep cs 0\<close>,
    \<^verbatim>\<open>+\<close> is \<open>Rep cs 1\<close>, \<^verbatim>\<open>{2,}\<close> is \<open>Rep cs 2\<close>): the longest run first, then
    shorter ones.
  \<^item> \<open>Opt r\<close>: \<^verbatim>\<open>r?\<close>, greedy; an iteration that matches the empty string is dropped.
  \<^item> \<open>Alt\<close>, \<open>Seq\<close>: alternatives left to right, and sequence.
  \<^item> \<open>Grp n r\<close>: the capturing group number \<open>n\<close>.
  \<^item> \<open>NotBehind r\<close>: \<^verbatim>\<open>(?<!r)\<close>, which succeeds when no text that ends at the position
    matches \<open>r\<close>.
\<close>

fun rmatch :: "bool \<Rightarrow> string \<Rightarrow> regex \<Rightarrow> nat \<times> captures \<Rightarrow> (nat \<times> captures) list" where
  "rmatch ic s (Lit lit) (p, c) = (if litAt ic s lit p then [(p + length lit, c)] else [])"
| "rmatch ic s (One cs) (p, c) =
     (if p < length s \<and> inCharset ic cs (s ! p) then [(Suc p, c)] else [])"
| "rmatch ic s (Rep cs n) (p, c) =
     (let k = length (takeWhile (inCharset ic cs) (drop p s))
      in map (\<lambda>i. (p + i, c)) (rev [n ..< Suc k]))"
| "rmatch ic s (Opt r) (p, c) = filter (\<lambda>(q, c'). q \<noteq> p) (rmatch ic s r (p, c)) @ [(p, c)]"
| "rmatch ic s (Alt r1 r2) (p, c) = rmatch ic s r1 (p, c) @ rmatch ic s r2 (p, c)"
| "rmatch ic s (Seq r1 r2) (p, c) = concat (map (rmatch ic s r2) (rmatch ic s r1 (p, c)))"
| "rmatch ic s (Grp n r) (p, c) = map (\<lambda>(q, c'). (q, (n, p, q) # c')) (rmatch ic s r (p, c))"
| "rmatch ic s WordBoundary (p, c) = (if isWordBoundary s p then [(p, c)] else [])"
| "rmatch ic s (NotBehind r) (p, c) =
     (if list_ex (\<lambda>j. list_ex (\<lambda>(q, c'). q = p) (rmatch ic s r (j, c))) [0 ..< Suc p]
      then [] else [(p, c)])"

text \<open>
  \<^verbatim>\<open>RegExpBuiltinExec\<close>: the first position from \<open>lastIndex\<close> on at which the pattern
  matches, with the match the matcher reports there; \<^verbatim>\<open>null\<close> is \<open>None\<close>.
\<close>

record rmatched =
  index :: nat
  endIndex :: nat
  groups :: captures

fun firstMatch :: "bool \<Rightarrow> regex \<Rightarrow> string \<Rightarrow> nat list \<Rightarrow> rmatched option" where
  "firstMatch ic r s [] = None"
| "firstMatch ic r s (i # rest) =
     (case rmatch ic s r (i, []) of
        [] \<Rightarrow> firstMatch ic r s rest
      | (e, c) # _ \<Rightarrow> Some \<lparr>index = i, endIndex = e, groups = c\<rparr>)"

definition regexExec :: "bool \<Rightarrow> regex \<Rightarrow> string \<Rightarrow> nat \<Rightarrow> rmatched option" where
  "regexExec ic r s lastIndex =
     (if length s < lastIndex then None else firstMatch ic r s [lastIndex ..< Suc (length s)])"

text \<open>\<^verbatim>\<open>m[0]\<close>, and \<^verbatim>\<open>m[n]\<close> for a group, which is \<^verbatim>\<open>undefined\<close> when the group took no part.\<close>

definition matched :: "string \<Rightarrow> rmatched \<Rightarrow> string" where
  "matched s m = take (endIndex m - index m) (drop (index m) s)"

definition capture :: "string \<Rightarrow> rmatched \<Rightarrow> nat \<Rightarrow> string option" where
  "capture s m n =
     (case map_of (groups m) n of
        None \<Rightarrow> None
      | Some (a, b) \<Rightarrow> Some (take (b - a) (drop a s)))"

subsection \<open>The four patterns\<close>

fun seqs :: "regex list \<Rightarrow> regex" where
  "seqs [] = Lit []"
| "seqs [r] = r"
| "seqs (r # rs) = Seq r (seqs rs)"

fun alts :: "string list \<Rightarrow> regex" where
  "alts [] = Lit []"
| "alts [x] = Lit x"
| "alts (x # xs) = Alt (Lit x) (alts xs)"

definition identStart :: charset where
  "identStart = Ranges [(CHR ''a'', CHR ''z''), (CHR ''A'', CHR ''Z''), (CHR ''_'', CHR ''_'')]"

definition identPart :: charset where
  "identPart = Ranges [(CHR ''a'', CHR ''z''), (CHR ''A'', CHR ''Z''), (CHR ''0'', CHR ''9''),
                       (CHR ''_'', CHR ''_'')]"

text \<open>\<^verbatim>\<open>[a-zA-Z_][a-zA-Z0-9_]*\<close>\<close>

definition identRegex :: regex where
  "identRegex = Seq (One identStart) (Rep identPart 0)"

text \<open>
  Line 163, with the flag \<^verbatim>\<open>g\<close>:
  \<^verbatim>\<open>/\b([a-zA-Z_][a-zA-Z0-9_]*)\s*:\s*(STRING|INT|FLOAT|CHAR|BOOL)/g\<close>
\<close>

definition typedParamRegex :: regex where
  "typedParamRegex =
     seqs [WordBoundary, Grp 1 identRegex, Rep WhiteSpace 0, Lit '':'', Rep WhiteSpace 0,
           Grp 2 (alts [''STRING'', ''INT'', ''FLOAT'', ''CHAR'', ''BOOL''])]"

text \<open>
  Line 179, with the flag \<^verbatim>\<open>i\<close>:
  \<^verbatim>\<open>/\bFN\s+(?:STRING|INT|FLOAT|CHAR|BOOL)?\s*([a-zA-Z_][a-zA-Z0-9_]*)\s*\((.*)\)/i\<close>
\<close>

definition functionStartRegex :: regex where
  "functionStartRegex =
     seqs [WordBoundary, Lit ''FN'', Rep WhiteSpace 1,
           Opt (alts [''STRING'', ''INT'', ''FLOAT'', ''CHAR'', ''BOOL'']), Rep WhiteSpace 0,
           Grp 1 identRegex, Rep WhiteSpace 0, Lit ''('', Grp 2 (Rep Dot 0), Lit '')'']"

text \<open>
  Line 204, with the flag \<^verbatim>\<open>g\<close>:
  \<^verbatim>\<open>/(?<!\bFN\s+)(STRING|INT|FLOAT|CHAR)\s+([a-zA-Z_][a-zA-Z0-9_]*)\b/g\<close>
\<close>

definition paramRegex :: regex where
  "paramRegex =
     seqs [NotBehind (seqs [WordBoundary, Lit ''FN'', Rep WhiteSpace 1]),
           Grp 1 (alts [''STRING'', ''INT'', ''FLOAT'', ''CHAR'']), Rep WhiteSpace 1,
           Grp 2 identRegex, WordBoundary]"

text \<open>Line 247, with the flag \<^verbatim>\<open>g\<close>: \<^verbatim>\<open>/\b[A-Z]{2,}\b/g\<close>\<close>

definition upperCasePattern :: regex where
  "upperCasePattern = seqs [WordBoundary, Rep (Ranges [(CHR ''A'', CHR ''Z'')]) 2, WordBoundary]"


section \<open>What every match of a pattern has: its bounds, its least length, its groups\<close>

text \<open>\<open>minLen r\<close>: the least number of characters a match of \<open>r\<close> takes.\<close>

primrec minLen :: "regex \<Rightarrow> nat" where
  "minLen (Lit lit) = length lit"
| "minLen (One cs) = 1"
| "minLen (Rep cs n) = n"
| "minLen (Opt r) = 0"
| "minLen (Alt r1 r2) = min (minLen r1) (minLen r2)"
| "minLen (Seq r1 r2) = minLen r1 + minLen r2"
| "minLen (Grp n r) = minLen r"
| "minLen WordBoundary = 0"
| "minLen (NotBehind r) = 0"

text \<open>\<open>setsGroup n r\<close>: every match of \<open>r\<close> goes through the capturing group \<open>n\<close>.\<close>

primrec setsGroup :: "nat \<Rightarrow> regex \<Rightarrow> bool" where
  "setsGroup n (Lit lit) = False"
| "setsGroup n (One cs) = False"
| "setsGroup n (Rep cs k) = False"
| "setsGroup n (Opt r) = False"
| "setsGroup n (Alt r1 r2) = (setsGroup n r1 \<and> setsGroup n r2)"
| "setsGroup n (Seq r1 r2) = (setsGroup n r1 \<or> setsGroup n r2)"
| "setsGroup n (Grp k r) = (k = n \<or> setsGroup n r)"
| "setsGroup n WordBoundary = False"
| "setsGroup n (NotBehind r) = False"

text \<open>A pattern without a capturing group leaves the captures as they are.\<close>

primrec noGroups :: "regex \<Rightarrow> bool" where
  "noGroups (Lit lit) = True"
| "noGroups (One cs) = True"
| "noGroups (Rep cs k) = True"
| "noGroups (Opt r) = noGroups r"
| "noGroups (Alt r1 r2) = (noGroups r1 \<and> noGroups r2)"
| "noGroups (Seq r1 r2) = (noGroups r1 \<and> noGroups r2)"
| "noGroups (Grp k r) = False"
| "noGroups WordBoundary = True"
| "noGroups (NotBehind r) = True"

lemma litAt_length: "litAt ic s lit p \<Longrightarrow> p + length lit \<le> length s \<or> lit = []"
proof -
  assume "litAt ic s lit p"
  then have "length (take (length lit) (drop p s)) = length lit"
    unfolding litAt_def by (metis length_map)
  then show ?thesis by (cases lit) auto
qed

lemma rmatch_bounds:
  "(q, c') \<in> set (rmatch ic s r (p, c)) \<Longrightarrow> p \<le> length s \<Longrightarrow> p \<le> q \<and> q \<le> length s"
proof (induction r arbitrary: p c q c')
  case (Lit lit)
  then show ?case using litAt_length [of ic s lit p] by (auto split: if_splits)
next
  case (One cs)
  then show ?case by (auto split: if_splits)
next
  case (Rep cs n)
  have "length (takeWhile (inCharset ic cs) (drop p s)) \<le> length s - p"
    by (metis length_drop length_takeWhile_le)
  with Rep show ?case by (auto simp: Let_def)
next
  case (Opt r)
  then show ?case by (auto split: if_splits)
next
  case (Alt r1 r2)
  then show ?case by auto
next
  case (Seq r1 r2)
  from Seq.prems obtain q1 c1 where
    a: "(q1, c1) \<in> set (rmatch ic s r1 (p, c))" and b: "(q, c') \<in> set (rmatch ic s r2 (q1, c1))"
    by auto
  from Seq.IH(1) [OF a Seq.prems(2)] have "p \<le> q1" "q1 \<le> length s" by simp_all
  moreover from Seq.IH(2) [OF b \<open>q1 \<le> length s\<close>] have "q1 \<le> q" "q \<le> length s" by simp_all
  ultimately show ?case by simp
next
  case (Grp n r)
  then show ?case by auto
next
  case WordBoundary
  then show ?case by (auto split: if_splits)
next
  case (NotBehind r)
  then show ?case by (auto split: if_splits)
qed

lemma rmatch_minLen:
  "(q, c') \<in> set (rmatch ic s r (p, c)) \<Longrightarrow> p + minLen r \<le> q"
proof (induction r arbitrary: p c q c')
  case (Seq r1 r2)
  from Seq.prems obtain q1 c1 where
    a: "(q1, c1) \<in> set (rmatch ic s r1 (p, c))" and b: "(q, c') \<in> set (rmatch ic s r2 (q1, c1))"
    by auto
  from Seq.IH(1) [OF a] Seq.IH(2) [OF b] show ?case by simp
next
  case (Alt r1 r2)
  from Alt.prems have "(q, c') \<in> set (rmatch ic s r1 (p, c)) \<or> (q, c') \<in> set (rmatch ic s r2 (p, c))"
    by auto
  then show ?case
  proof
    assume "(q, c') \<in> set (rmatch ic s r1 (p, c))"
    from Alt.IH(1) [OF this] show ?thesis by simp
  next
    assume "(q, c') \<in> set (rmatch ic s r2 (p, c))"
    from Alt.IH(2) [OF this] show ?thesis by simp
  qed
next
  case (Opt r)
  from Opt.prems have "(q, c') \<in> set (rmatch ic s r (p, c)) \<or> q = p" by auto
  then show ?case
  proof
    assume "(q, c') \<in> set (rmatch ic s r (p, c))"
    from Opt.IH [OF this] show ?thesis by simp
  next
    assume "q = p"
    then show ?thesis by simp
  qed
next
  case (Grp n r)
  from Grp.prems obtain c0 where "(q, c0) \<in> set (rmatch ic s r (p, c))" by auto
  from Grp.IH [OF this] show ?case by simp
qed (auto simp: Let_def litAt_def split: if_splits)

lemma firstMatch_Some:
  "firstMatch ic r s is = Some m \<Longrightarrow>
     index m \<in> set is \<and> (endIndex m, groups m) \<in> set (rmatch ic s r (index m, []))"
  by (induction "is") (auto split: list.splits)

lemma regexExec_bounds:
  assumes "regexExec ic r s lastIndex = Some m"
  shows "lastIndex \<le> index m" and "index m + minLen r \<le> endIndex m" and "endIndex m \<le> length s"
proof -
  from assms have le: "lastIndex \<le> length s"
    and fm: "firstMatch ic r s [lastIndex ..< Suc (length s)] = Some m"
    by (auto simp: regexExec_def split: if_splits)
  from firstMatch_Some [OF fm] have i: "index m \<in> set [lastIndex ..< Suc (length s)]"
    and e: "(endIndex m, groups m) \<in> set (rmatch ic s r (index m, []))" by simp_all
  from i show "lastIndex \<le> index m" by auto
  from rmatch_minLen [OF e] show "index m + minLen r \<le> endIndex m" .
  from i have "index m \<le> length s" by auto
  from rmatch_bounds [OF e this] show "endIndex m \<le> length s" by simp
qed


section \<open>The server: its data and its state\<close>

record TextDocument =
  uri :: string
  getText :: string

record ExampleSettings =
  maxNumberOfProblems :: int

record FunctionSymbol =
  name :: string
  params :: "string list"

record VariableSymbol =
  varName :: string
  containerName :: string

datatype CompletionItemKind = Keyword | Variable | Function

record CompletionItem =
  label :: string
  kind :: CompletionItemKind
  detail :: "string option"

record Position =
  line :: nat
  character :: nat

record Range =
  rangeStart :: Position
  rangeEnd :: Position

record Location =
  locationUri :: string
  locationRange :: Range

record DiagnosticRelatedInformation =
  location :: Location
  relatedMessage :: string

datatype DiagnosticSeverity = Error | Warning | Information | Hint

record Diagnostic =
  severity :: DiagnosticSeverity
  diagnosticRange :: Range
  message :: string
  source :: string
  relatedInformation :: "DiagnosticRelatedInformation list option"

datatype DocumentDiagnosticReportKind = Full | Unchanged

record DocumentDiagnosticReport =
  reportKind :: DocumentDiagnosticReportKind
  items :: "Diagnostic list"





text \<open>
  The module's variables (lines 27 to 31, 97 and 100): the document store, the three
  capability flags, the global settings and the cache of the settings of each document.
\<close>

record ServerState =
  documents :: "string \<rightharpoonup> TextDocument"
  hasConfigurationCapability :: bool
  hasWorkspaceFolderCapability :: bool
  hasDiagnosticRelatedInformationCapability :: bool
  globalSettings :: ExampleSettings
  documentSettings :: "string \<rightharpoonup> ExampleSettings"

definition defaultSettings :: ExampleSettings where
  "defaultSettings = \<lparr>maxNumberOfProblems = 1000\<rparr>"

definition initialState :: ServerState where
  "initialState =
     \<lparr>documents = Map.empty,
      hasConfigurationCapability = False,
      hasWorkspaceFolderCapability = False,
      hasDiagnosticRelatedInformationCapability = False,
      globalSettings = defaultSettings,
      documentSettings = Map.empty\<rparr>"



text \<open>
  \<^verbatim>\<open>getDocumentSettings\<close>, lines 117 to 130. The client's answer to
  \<^verbatim>\<open>connection.workspace.getConfiguration\<close> is the parameter \<open>getConfiguration\<close>, the
  settings it resolves to for a resource; the answer is cached.
\<close>

definition getDocumentSettings ::
  "(string \<Rightarrow> ExampleSettings) \<Rightarrow> ServerState \<Rightarrow> string \<Rightarrow> ExampleSettings \<times> ServerState" where
  "getDocumentSettings getConfiguration st resource =
     (if \<not> hasConfigurationCapability st then (globalSettings st, st)
      else
        (case documentSettings st resource of
           Some result \<Rightarrow> (result, st)
         | None \<Rightarrow>
             (let result = getConfiguration resource
              in (result, st\<lparr>documentSettings := (documentSettings st)(resource \<mapsto> result)\<rparr>))))"

section \<open>extractFunctionDeclarations, lines 138 to 196\<close>

text \<open>
  What the source can do with a group that took no part in a match: \<^verbatim>\<open>.split\<close> of
  \<^verbatim>\<open>undefined\<close> raises a \<^verbatim>\<open>TypeError\<close>; a variable declared a string that receives
  \<^verbatim>\<open>undefined\<close> is \<open>UndefinedCapture\<close>.
\<close>

datatype error = TypeError | UndefinedCapture

text \<open>
  \<^verbatim>\<open>line.match(re)\<close> for a pattern with the flag \<^verbatim>\<open>g\<close>: the matched texts, from left to
  right, each search starting where the last match ended, and one character further
  after an empty match. \<^verbatim>\<open>null\<close> (no match) is the empty list.
\<close>

function matchAllFrom :: "bool \<Rightarrow> regex \<Rightarrow> string \<Rightarrow> nat \<Rightarrow> string list" where
  "matchAllFrom ic r s lastIndex =
     (case regexExec ic r s lastIndex of
        None \<Rightarrow> []
      | Some m \<Rightarrow>
          matched s m #
          matchAllFrom ic r s (if endIndex m = index m then Suc (endIndex m) else endIndex m))"
  by pat_completeness auto
termination
proof (relation "measure (\<lambda>(ic, r, s, lastIndex). Suc (length s) - lastIndex)")
  fix ic r s lastIndex m
  assume a: "regexExec ic r s lastIndex = Some m"
  from regexExec_bounds [OF a]
  show "((ic, r, s, if endIndex m = index m then Suc (endIndex m) else endIndex m),
         (ic, r, s, lastIndex)) \<in> measure (\<lambda>(ic, r, s, lastIndex). Suc (length s) - lastIndex)"
    by auto
qed simp

declare matchAllFrom.simps [simp del]

definition matchAll :: "bool \<Rightarrow> regex \<Rightarrow> string \<Rightarrow> string list" where
  "matchAll ic r s = matchAllFrom ic r s 0"

text \<open>
  Lines 162 to 174: the typed parameters of a body line. Each match is split at the colon
  and, when that gives two parts, becomes \<^verbatim>\<open>`${paramType} ${paramName}`\<close>.
\<close>

definition typedParam :: "string \<Rightarrow> string list" where
  "typedParam match =
     (let parts = split_on match CHR '':''
      in if length parts = 2
         then (let paramName = trim (parts ! 0); paramType = trim (parts ! 1)
               in [paramType @ '' '' @ paramName])
         else [])"

definition bodyParams :: "string \<Rightarrow> string list" where
  "bodyParams ln = concat (map typedParam (matchAll False typedParamRegex ln))"

text \<open>The variables of the scan: lines 141 and 143 to 145.\<close>

record FnScan =
  functionDeclarations :: "FunctionSymbol list"
  functionName :: string
  functionParams :: "string list"
  isInFunction :: bool

definition scanStart :: FnScan where
  "scanStart =
     \<lparr>functionDeclarations = [], functionName = [], functionParams = [], isInFunction = False\<rparr>"

text \<open>The body of \<^verbatim>\<open>lines.forEach\<close>, lines 147 to 193, for one line.\<close>

definition scanLine :: "FnScan \<Rightarrow> string \<Rightarrow> error + FnScan" where
  "scanLine st ln =
     (if isInFunction st then
        (if trim ln = ''END FN'' then
           Inr (st\<lparr>functionDeclarations :=
                      functionDeclarations st @
                      [\<lparr>name = functionName st, params = functionParams st\<rparr>],
                    functionName := [],
                    functionParams := [],
                    isInFunction := False\<rparr>)
         else Inr (st\<lparr>functionParams := functionParams st @ bodyParams ln\<rparr>))
      else
        (case regexExec True functionStartRegex ln 0 of
           None \<Rightarrow> Inr st
         | Some functionStartMatch \<Rightarrow>
             (case capture ln functionStartMatch 1 of
                None \<Rightarrow> Inl UndefinedCapture
              | Some fname \<Rightarrow>
                  (case capture ln functionStartMatch 2 of
                     None \<Rightarrow> Inl TypeError
                   | Some paramsString \<Rightarrow>
                       Inr (st\<lparr>functionName := fname,
                                functionParams := map trim (split_on paramsString CHR '',''),
                                isInFunction := True\<rparr>)))))"

fun scanLines :: "FnScan \<Rightarrow> string list \<Rightarrow> error + FnScan" where
  "scanLines st [] = Inr st"
| "scanLines st (ln # rest) =
     (case scanLine st ln of Inl e \<Rightarrow> Inl e | Inr st' \<Rightarrow> scanLines st' rest)"

definition documentLines :: "TextDocument \<Rightarrow> string list" where
  "documentLines document = split_on (getText document) CHR 0x0A"

definition extractFunctionDeclarations :: "TextDocument \<Rightarrow> error + FunctionSymbol list" where
  "extractFunctionDeclarations document =
     (case scanLines scanStart (documentLines document) of
        Inl e \<Rightarrow> Inl e
      | Inr st \<Rightarrow> Inr (functionDeclarations st))"


section \<open>extractVariableDeclarations, lines 198 to 214\<close>

lemma minLen_paramRegex: "minLen paramRegex = 5"
  by (simp add: paramRegex_def identRegex_def)

text \<open>
  The loop \<^verbatim>\<open>while ((matches = paramRegex.exec(line)) !== null)\<close> on one line, from
  \<open>lastIndex\<close>. The pattern has the flag \<^verbatim>\<open>g\<close>, so a match moves \<open>lastIndex\<close> to its
  end; the loop ends when \<^verbatim>\<open>exec\<close> returns \<^verbatim>\<open>null\<close>, which sets \<open>lastIndex\<close> back to
  0, so the next line is searched from its start.
\<close>

function variableLoop :: "string \<Rightarrow> nat \<Rightarrow> VariableSymbol list \<Rightarrow> error + VariableSymbol list" where
  "variableLoop ln lastIndex variableDeclarations =
     (case regexExec False paramRegex ln lastIndex of
        None \<Rightarrow> Inr variableDeclarations
      | Some matches \<Rightarrow>
          (case capture ln matches 1 of
             None \<Rightarrow> Inl UndefinedCapture
           | Some ty \<Rightarrow>
               (case capture ln matches 2 of
                  None \<Rightarrow> Inl UndefinedCapture
                | Some nm \<Rightarrow>
                    variableLoop ln (endIndex matches)
                      (variableDeclarations @ [\<lparr>varName = nm, containerName = ty\<rparr>]))))"
  by pat_completeness auto
termination
proof (relation "measure (\<lambda>(ln, lastIndex, acc). Suc (length ln) - lastIndex)")
  fix ln lastIndex and variableDeclarations :: "VariableSymbol list" and matches ty nm
  assume a: "regexExec False paramRegex ln lastIndex = Some matches"
  from regexExec_bounds [OF a]
  show "((ln, endIndex matches, variableDeclarations @ [\<lparr>varName = nm, containerName = ty\<rparr>]),
         (ln, lastIndex, variableDeclarations))
        \<in> measure (\<lambda>(ln, lastIndex, acc). Suc (length ln) - lastIndex)"
    by (simp add: minLen_paramRegex)
qed simp

declare variableLoop.simps [simp del]

fun variableLines :: "VariableSymbol list \<Rightarrow> string list \<Rightarrow> error + VariableSymbol list" where
  "variableLines variableDeclarations [] = Inr variableDeclarations"
| "variableLines variableDeclarations (ln # rest) =
     (case variableLoop ln 0 variableDeclarations of
        Inl e \<Rightarrow> Inl e
      | Inr variableDeclarations' \<Rightarrow> variableLines variableDeclarations' rest)"

definition extractVariableDeclarations :: "TextDocument \<Rightarrow> error + VariableSymbol list" where
  "extractVariableDeclarations document = variableLines [] (documentLines document)"

section \<open>validateTextDocument, lines 239 to 283, and the diagnostics handler\<close>

lemma minLen_upperCasePattern: "minLen upperCasePattern = 2"
  by (simp add: upperCasePattern_def)

text \<open>
  \<^verbatim>\<open>textDocument.positionAt\<close> belongs to the document library, which is not part of the
  sources: it is the parameter \<open>positionAt\<close>.

  Lines 254 to 280: the diagnostic the loop body builds for a match.
\<close>

definition buildDiagnostic ::
  "(TextDocument \<Rightarrow> nat \<Rightarrow> Position) \<Rightarrow> bool \<Rightarrow> TextDocument \<Rightarrow> rmatched \<Rightarrow> Diagnostic" where
  "buildDiagnostic positionAt related textDocument m =
     (let rng = \<lparr>rangeStart = positionAt textDocument (index m),
                 rangeEnd = positionAt textDocument
                   (index m + length (matched (getText textDocument) m))\<rparr>;
          diagnostic =
            \<lparr>severity = Warning,
             diagnosticRange = rng,
             message = matched (getText textDocument) m @ '' is all uppercase.'',
             source = ''ex'',
             relatedInformation = None\<rparr>
      in if related then
           diagnostic\<lparr>relatedInformation :=
             Some [\<lparr>location = \<lparr>locationUri = uri textDocument, locationRange = rng\<rparr>,
                    relatedMessage = ''Spelling matters''\<rparr>,
                   \<lparr>location = \<lparr>locationUri = uri textDocument, locationRange = rng\<rparr>,
                    relatedMessage = ''Particularly for names''\<rparr>]\<rparr>
         else diagnostic)"

text \<open>
  The loop of lines 252 to 281:
  \<^verbatim>\<open>while ((m = pattern.exec(text)) && problems < settings.maxNumberOfProblems)\<close>.
  Its body counts the problem and builds the diagnostic; no statement of the body adds the
  diagnostic to \<^verbatim>\<open>diagnostics\<close>, so the list goes round the loop unchanged.
\<close>

function validateLoop ::
  "(TextDocument \<Rightarrow> nat \<Rightarrow> Position) \<Rightarrow> bool \<Rightarrow> ExampleSettings \<Rightarrow> TextDocument \<Rightarrow>
   nat \<Rightarrow> int \<Rightarrow> Diagnostic list \<Rightarrow> Diagnostic list" where
  "validateLoop positionAt related settings textDocument lastIndex problems diagnostics =
     (case regexExec False upperCasePattern (getText textDocument) lastIndex of
        None \<Rightarrow> diagnostics
      | Some m \<Rightarrow>
          (if problems < maxNumberOfProblems settings then
             (let problems' = problems + 1;
                  diagnostic = buildDiagnostic positionAt related textDocument m
              in validateLoop positionAt related settings textDocument (endIndex m) problems'
                   diagnostics)
           else diagnostics))"
  by pat_completeness auto
termination
proof (relation "measure (\<lambda>(positionAt, related, settings, textDocument, lastIndex, problems,
                          diagnostics). Suc (length (getText textDocument)) - lastIndex)")
  fix positionAt :: "TextDocument \<Rightarrow> nat \<Rightarrow> Position" and related :: bool
    and settings :: ExampleSettings and textDocument :: TextDocument and lastIndex :: nat
    and problems :: int and diagnostics :: "Diagnostic list" and m problems' diagnostic
  assume a: "regexExec False upperCasePattern (getText textDocument) lastIndex = Some m"
  from regexExec_bounds [OF a]
  show "((positionAt, related, settings, textDocument, endIndex m, problems', diagnostics),
         (positionAt, related, settings, textDocument, lastIndex, problems, diagnostics))
        \<in> measure (\<lambda>(positionAt, related, settings, textDocument, lastIndex, problems,
                      diagnostics). Suc (length (getText textDocument)) - lastIndex)"
    by (simp add: minLen_upperCasePattern)
qed simp

declare validateLoop.simps [simp del]

definition validateTextDocument ::
  "(TextDocument \<Rightarrow> nat \<Rightarrow> Position) \<Rightarrow> (string \<Rightarrow> ExampleSettings) \<Rightarrow> ServerState \<Rightarrow>
   TextDocument \<Rightarrow> Diagnostic list \<times> ServerState" where
  "validateTextDocument positionAt getConfiguration st textDocument =
     (case getDocumentSettings getConfiguration st (uri textDocument) of
        (settings, st') \<Rightarrow>
          (validateLoop positionAt (hasDiagnosticRelatedInformationCapability st') settings
             textDocument 0 0 [],
           st'))"

text \<open>\<^verbatim>\<open>connection.languages.diagnostics.on\<close>, lines 216 to 231.\<close>

definition diagnosticsOn ::
  "(TextDocument \<Rightarrow> nat \<Rightarrow> Position) \<Rightarrow> (string \<Rightarrow> ExampleSettings) \<Rightarrow> ServerState \<Rightarrow>
   string \<Rightarrow> DocumentDiagnosticReport \<times> ServerState" where
  "diagnosticsOn positionAt getConfiguration st textDocumentUri =
     (case documents st textDocumentUri of
        Some document \<Rightarrow>
          (case validateTextDocument positionAt getConfiguration st document of
             (diagnostics, st') \<Rightarrow> (\<lparr>reportKind = Full, items = diagnostics\<rparr>, st'))
      | None \<Rightarrow> (\<lparr>reportKind = Full, items = []\<rparr>, st))"

section \<open>The completion handler, lines 291 to 383\<close>

definition keywordItem :: "string \<Rightarrow> CompletionItem" where
  "keywordItem l = \<lparr>label = l, kind = Keyword, detail = None\<rparr>"

definition fixedItems :: "CompletionItem list" where
  "fixedItems =
     [keywordItem ''BEGIN'', keywordItem ''END'', keywordItem ''IF'', keywordItem ''ELSE'',
      keywordItem ''WHILE'', keywordItem ''FN'', keywordItem ''STRING'', keywordItem ''CHAR'',
      keywordItem ''INT'', keywordItem ''FLOAT'', keywordItem ''BOOL'',
      keywordItem (CHR 0x22 # ''TRUE'' @ [CHR 0x22]),
      keywordItem (CHR 0x22 # ''FALSE'' @ [CHR 0x22]),
      keywordItem ''RETURN'',
      \<lparr>label = ''scanString'', kind = Function, detail = None\<rparr>]"

text \<open>The two \<^verbatim>\<open>forEach\<close> loops of lines 365 to 378, each pushing one item per symbol.\<close>

definition pushVariables :: "CompletionItem list \<Rightarrow> VariableSymbol list \<Rightarrow> CompletionItem list" where
  "pushVariables completionItems variableDeclarations =
     foldl (\<lambda>acc variable.
        acc @ [\<lparr>label = varName variable, kind = Variable,
                 detail = Some (containerName variable)\<rparr>])
       completionItems variableDeclarations"

definition pushFunctions :: "CompletionItem list \<Rightarrow> FunctionSymbol list \<Rightarrow> CompletionItem list" where
  "pushFunctions completionItems functionDecls =
     foldl (\<lambda>acc variable. acc @ [\<lparr>label = name variable, kind = Function, detail = None\<rparr>])
       completionItems functionDecls"

definition onCompletion :: "ServerState \<Rightarrow> string \<Rightarrow> Position \<Rightarrow> error + CompletionItem list" where
  "onCompletion st textDocumentUri position =
     (case documents st textDocumentUri of
        None \<Rightarrow> Inr []
      | Some document \<Rightarrow>
          (case extractVariableDeclarations document of
             Inl e \<Rightarrow> Inl e
           | Inr variableDeclarations \<Rightarrow>
               (case extractFunctionDeclarations document of
                  Inl e \<Rightarrow> Inl e
                | Inr functionDecls \<Rightarrow>
                    Inr (pushFunctions (pushVariables fixedItems variableDeclarations)
                           functionDecls))))"


text \<open>
  A completion request as a step of the server. Lines 291 to 383 assign none of the
  module's variables: the arrays and the patterns of the two scans are created by the
  call. The state after the request is the state before it.
\<close>

definition completionRequest ::
  "ServerState \<Rightarrow> string \<Rightarrow> Position \<Rightarrow> (error + CompletionItem list) \<times> ServerState" where
  "completionRequest st textDocumentUri position = (onCompletion st textDocumentUri position, st)"

section \<open>No scan raises: every group the source reads took part in the match\<close>

lemma rmatch_keeps_groups:
  "(q, c') \<in> set (rmatch ic s r (p, c)) \<Longrightarrow> map_of c n \<noteq> None \<Longrightarrow> map_of c' n \<noteq> None"
proof (induction r arbitrary: p c q c')
  case (Seq r1 r2)
  from Seq.prems obtain q1 c1 where
    a: "(q1, c1) \<in> set (rmatch ic s r1 (p, c))" and b: "(q, c') \<in> set (rmatch ic s r2 (q1, c1))"
    by auto
  from Seq.IH(2) [OF b Seq.IH(1) [OF a Seq.prems(2)]] show ?case .
next
  case (Alt r1 r2)
  then show ?case by auto
next
  case (Opt r)
  then show ?case by auto
next
  case (Grp k r)
  from Grp.prems obtain c0 where a: "(q, c0) \<in> set (rmatch ic s r (p, c))"
    and c': "c' = (k, p, q) # c0" by auto
  from Grp.IH [OF a Grp.prems(2)] c' show ?case by simp
qed (auto simp: Let_def split: if_splits)

lemma rmatch_sets_groups:
  "(q, c') \<in> set (rmatch ic s r (p, c)) \<Longrightarrow> setsGroup n r \<Longrightarrow> map_of c' n \<noteq> None"
proof (induction r arbitrary: p c q c')
  case (Seq r1 r2)
  from Seq.prems obtain q1 c1 where
    a: "(q1, c1) \<in> set (rmatch ic s r1 (p, c))" and b: "(q, c') \<in> set (rmatch ic s r2 (q1, c1))"
    by auto
  from Seq.prems(2) have "setsGroup n r1 \<or> setsGroup n r2" by simp
  then show ?case
  proof
    assume "setsGroup n r1"
    from rmatch_keeps_groups [OF b Seq.IH(1) [OF a this]] show ?thesis .
  next
    assume "setsGroup n r2"
    from Seq.IH(2) [OF b this] show ?thesis .
  qed
next
  case (Alt r1 r2)
  then show ?case by auto
next
  case (Grp k r)
  from Grp.prems obtain c0 where a: "(q, c0) \<in> set (rmatch ic s r (p, c))"
    and c': "c' = (k, p, q) # c0" by auto
  show ?case
  proof (cases "k = n")
    case True
    with c' show ?thesis by simp
  next
    case False
    with Grp.prems(2) have "setsGroup n r" by simp
    from Grp.IH [OF a this] c' show ?thesis by simp
  qed
qed simp_all

lemma capture_defined:
  assumes "regexExec ic r s lastIndex = Some m" and "setsGroup n r"
  shows "\<exists>t. capture s m n = Some t"
proof -
  from assms(1) have "firstMatch ic r s [lastIndex ..< Suc (length s)] = Some m"
    by (auto simp: regexExec_def split: if_splits)
  from firstMatch_Some [OF this]
  have "(endIndex m, groups m) \<in> set (rmatch ic s r (index m, []))" by simp
  from rmatch_sets_groups [OF this assms(2)] show ?thesis
    by (auto simp: capture_def split: option.splits)
qed

lemma setsGroup_functionStartRegex:
  "setsGroup 1 functionStartRegex" "setsGroup 2 functionStartRegex"
  by (simp_all add: functionStartRegex_def)

lemma setsGroup_paramRegex: "setsGroup 1 paramRegex" "setsGroup 2 paramRegex"
  by (simp_all add: paramRegex_def)

lemma scanLine_total: "\<exists>st'. scanLine st ln = Inr st'"
proof (cases "regexExec True functionStartRegex ln 0")
  case None
  then show ?thesis by (simp add: scanLine_def)
next
  case (Some m)
  from capture_defined [OF Some setsGroup_functionStartRegex(1)]
    capture_defined [OF Some setsGroup_functionStartRegex(2)]
  show ?thesis using Some by (auto simp: scanLine_def)
qed

lemma scanLines_total: "\<exists>st'. scanLines st lns = Inr st'"
proof (induction lns arbitrary: st)
  case Nil
  show ?case by simp
next
  case (Cons ln rest)
  from scanLine_total [of st ln] obtain st1 where "scanLine st ln = Inr st1" ..
  with Cons [of st1] show ?case by simp
qed

lemma extractFunctionDeclarations_total: "\<exists>fs. extractFunctionDeclarations document = Inr fs"
  using scanLines_total [of scanStart "documentLines document"]
  by (auto simp: extractFunctionDeclarations_def)

lemma variableLoop_total: "\<exists>vs. variableLoop ln lastIndex acc = Inr vs"
proof (induction ln lastIndex acc rule: variableLoop.induct)
  case (1 ln lastIndex acc)
  show ?case
  proof (cases "regexExec False paramRegex ln lastIndex")
    case None
    then show ?thesis by (simp add: variableLoop.simps)
  next
    case (Some m)
    from capture_defined [OF Some setsGroup_paramRegex(1)] obtain ty
      where ty: "capture ln m 1 = Some ty" ..
    from capture_defined [OF Some setsGroup_paramRegex(2)] obtain nm
      where nm: "capture ln m 2 = Some nm" ..
    from "1.IH" [OF Some ty nm] Some ty nm show ?thesis
      by (subst variableLoop.simps) simp
  qed
qed

lemma variableLines_total: "\<exists>vs. variableLines acc lns = Inr vs"
proof (induction lns arbitrary: acc)
  case Nil
  show ?case by simp
next
  case (Cons ln rest)
  from variableLoop_total [of ln 0 acc] obtain acc1 where "variableLoop ln 0 acc = Inr acc1" ..
  with Cons [of acc1] show ?case by simp
qed

lemma extractVariableDeclarations_total: "\<exists>vs. extractVariableDeclarations document = Inr vs"
  using variableLines_total by (simp add: extractVariableDeclarations_def)

lemma validateLoop_unchanged:
  "validateLoop positionAt related settings textDocument lastIndex problems diagnostics = diagnostics"
proof (induction positionAt related settings textDocument lastIndex problems diagnostics
    rule: validateLoop.induct)
  case (1 positionAt related settings textDocument lastIndex problems diagnostics)
  show ?case
  proof (cases "regexExec False upperCasePattern (getText textDocument) lastIndex")
    case None
    then show ?thesis by (simp add: validateLoop.simps)
  next
    case (Some m)
    show ?thesis
    proof (cases "problems < maxNumberOfProblems settings")
      case True
      from "1.IH" [OF Some True refl refl] Some True show ?thesis
        by (subst validateLoop.simps) (simp add: Let_def)
    next
      case False
      with Some show ?thesis by (simp add: validateLoop.simps)
    qed
  qed
qed

lemma pushVariables_map:
  "pushVariables completionItems vs =
     completionItems @ map (\<lambda>v. \<lparr>label = varName v, kind = Variable, detail = Some (containerName v)\<rparr>) vs"
  unfolding pushVariables_def by (induction vs arbitrary: completionItems) simp_all

lemma pushFunctions_map:
  "pushFunctions completionItems fs =
     completionItems @ map (\<lambda>f. \<lparr>label = name f, kind = Function, detail = None\<rparr>) fs"
  unfolding pushFunctions_def by (induction fs arbitrary: completionItems) simp_all

lemma scanLines_append:
  "scanLines st (xs @ ys) =
     (case scanLines st xs of Inl e \<Rightarrow> Inl e | Inr st' \<Rightarrow> scanLines st' ys)"
  by (induction xs arbitrary: st) (auto split: sum.splits)


section \<open>How the function scan moves from line to line\<close>

lemma scanLine_header:
  assumes "\<not> isInFunction st"
    and "regexExec True functionStartRegex h 0 = Some m"
    and "capture h m 1 = Some nm" and "capture h m 2 = Some ps"
  shows "scanLine st h =
     Inr (st\<lparr>functionName := nm, functionParams := map trim (split_on ps CHR '',''),
              isInFunction := True\<rparr>)"
  using assms by (simp add: scanLine_def)

lemma scanLine_end:
  assumes "isInFunction st" and "trim e = ''END FN''"
  shows "scanLine st e =
     Inr (st\<lparr>functionDeclarations :=
                functionDeclarations st @ [\<lparr>name = functionName st, params = functionParams st\<rparr>],
              functionName := [], functionParams := [], isInFunction := False\<rparr>)"
  using assms by (simp add: scanLine_def)

lemma scanLines_body:
  assumes "isInFunction st" and "\<forall>b\<in>set body. trim b \<noteq> ''END FN''"
  shows "scanLines st body =
     Inr (st\<lparr>functionParams := functionParams st @ concat (map bodyParams body)\<rparr>)"
  using assms
proof (induction body arbitrary: st)
  case Nil
  then show ?case by simp
next
  case (Cons b body)
  let ?st1 = "st\<lparr>functionParams := functionParams st @ bodyParams b\<rparr>"
  from Cons.prems have step: "scanLine st b = Inr ?st1" by (simp add: scanLine_def)
  from Cons.prems have "isInFunction ?st1" and "\<forall>b\<in>set body. trim b \<noteq> ''END FN''" by simp_all
  from Cons.IH [OF this] step show ?case by simp
qed

lemma scanLines_outside:
  assumes "\<not> isInFunction st"
    and "\<forall>l\<in>set pre. regexExec True functionStartRegex l 0 = None"
  shows "scanLines st pre = Inr st"
  using assms by (induction pre) (simp_all add: scanLine_def)

lemma scanLines_block:
  assumes "\<not> isInFunction st"
    and "regexExec True functionStartRegex h 0 = Some m"
    and "capture h m 1 = Some nm" and "capture h m 2 = Some ps"
    and "\<forall>b\<in>set body. trim b \<noteq> ''END FN''"
    and "trim e = ''END FN''"
  shows "scanLines st (h # body @ [e]) =
     Inr (st\<lparr>functionDeclarations :=
                functionDeclarations st @
                [\<lparr>name = nm,
                  params = map trim (split_on ps CHR '','') @ concat (map bodyParams body)\<rparr>],
              functionName := [], functionParams := [], isInFunction := False\<rparr>)"
proof -
  let ?st1 = "st\<lparr>functionName := nm, functionParams := map trim (split_on ps CHR '',''),
                 isInFunction := True\<rparr>"
  let ?st2 = "?st1\<lparr>functionParams := functionParams ?st1 @ concat (map bodyParams body)\<rparr>"
  have h: "scanLine st h = Inr ?st1" by (rule scanLine_header [OF assms(1-4)])
  have "isInFunction ?st1" by simp
  from scanLines_body [OF this assms(5)] have b: "scanLines ?st1 body = Inr ?st2" .
  have "isInFunction ?st2" by simp
  from scanLine_end [OF this assms(6)] have e: "scanLine ?st2 e = Inr
     (?st2\<lparr>functionDeclarations :=
                functionDeclarations ?st2 @ [\<lparr>name = functionName ?st2, params = functionParams ?st2\<rparr>],
              functionName := [], functionParams := [], isInFunction := False\<rparr>)" .
  show ?thesis using h b e by (simp add: scanLines_append)
qed

lemma scanLines_only_appends:
  "scanLines st lns = Inr st' \<Longrightarrow> \<exists>fs. functionDeclarations st' = functionDeclarations st @ fs"
proof (induction lns arbitrary: st)
  case Nil
  then show ?case by simp
next
  case (Cons ln rest)
  from Cons.prems obtain st1 where a: "scanLine st ln = Inr st1" and b: "scanLines st1 rest = Inr st'"
    by (auto split: sum.splits)
  from a have "\<exists>fs. functionDeclarations st1 = functionDeclarations st @ fs"
    by (auto simp: scanLine_def split: if_splits option.splits)
  moreover from Cons.IH [OF b] have "\<exists>fs. functionDeclarations st' = functionDeclarations st1 @ fs" .
  ultimately show ?case by auto
qed

section \<open>What the patterns match\<close>

lemma litAt_False: "litAt False s lit p \<longleftrightarrow> take (length lit) (drop p s) = lit"
proof -
  have "inj (of_char :: char \<Rightarrow> nat)" by (rule injI) simp
  then have "\<And>xs ys. (map (of_char :: char \<Rightarrow> nat) xs = map of_char ys) = (xs = ys)"
    by (rule inj_map_eq_map)
  moreover have "canonicalize False = (of_char :: char \<Rightarrow> nat)"
    by (rule ext) (simp add: canonicalize_def)
  ultimately show ?thesis by (simp add: litAt_def)
qed

lemma rmatch_Seq:
  "(q, c') \<in> set (rmatch ic s (Seq r1 r2) (p, c)) \<longleftrightarrow>
   (\<exists>q1 c1. (q1, c1) \<in> set (rmatch ic s r1 (p, c)) \<and> (q, c') \<in> set (rmatch ic s r2 (q1, c1)))"
  by auto

lemma rmatch_Grp:
  "(q, c') \<in> set (rmatch ic s (Grp n r) (p, c)) \<longleftrightarrow>
   (\<exists>c0. c' = (n, p, q) # c0 \<and> (q, c0) \<in> set (rmatch ic s r (p, c)))"
  by auto

lemma rmatch_NotBehind:
  "(q, c') \<in> set (rmatch ic s (NotBehind r) (p, c)) \<longleftrightarrow>
   q = p \<and> c' = c \<and>
   \<not> list_ex (\<lambda>j. list_ex (\<lambda>(q, c'). q = p) (rmatch ic s r (j, c))) [0 ..< Suc p]"
  by (simp del: upt_Suc)

lemma rmatch_WordBoundary:
  "(q, c') \<in> set (rmatch ic s WordBoundary (p, c)) \<longleftrightarrow> q = p \<and> c' = c \<and> isWordBoundary s p"
  by auto

lemma rmatch_noGroups:
  "(q, c') \<in> set (rmatch ic s r (p, c)) \<Longrightarrow> noGroups r \<Longrightarrow> c' = c"
proof (induction r arbitrary: p c q c')
  case (Seq r1 r2)
  from Seq.prems(1) obtain q1 c1 where
    a: "(q1, c1) \<in> set (rmatch ic s r1 (p, c))" and b: "(q, c') \<in> set (rmatch ic s r2 (q1, c1))"
    by auto
  from Seq.prems(2) have n1: "noGroups r1" and n2: "noGroups r2" by simp_all
  from Seq.IH(1) [OF a n1] Seq.IH(2) [OF b n2] show ?case by simp
next
  case (Alt r1 r2)
  then show ?case by auto
next
  case (Opt r)
  then show ?case by auto
qed (auto simp: Let_def split: if_splits)

lemma rmatch_alts:
  "(q, c') \<in> set (rmatch ic s (alts ls) (p, c)) \<Longrightarrow> ls \<noteq> [] \<Longrightarrow>
     \<exists>l\<in>set ls. litAt ic s l p \<and> q = p + length l"
  by (induction ls rule: alts.induct) (auto split: if_splits)

lemma noGroups_alts: "noGroups (alts ls)"
  by (induction ls rule: alts.induct) simp_all

declare rmatch.simps [simp del]

text \<open>What a match of the variable pattern at \<open>i\<close> is made of.\<close>

lemma rmatch_paramRegex:
  assumes "(e, c') \<in> set (rmatch False ln paramRegex (i, []))"
  shows "\<exists>ty q2. ty \<in> set [''STRING'', ''INT'', ''FLOAT'', ''CHAR''] \<and>
           take (length ty) (drop i ln) = ty \<and>
           c' = [(2, q2, e), (1, i, i + length ty)]"
    and "rmatch False ln (NotBehind (seqs [WordBoundary, Lit ''FN'', Rep WhiteSpace 1])) (i, []) \<noteq> []"
proof -
  let ?types = "[''STRING'', ''INT'', ''FLOAT'', ''CHAR'']"
  let ?nb = "NotBehind (seqs [WordBoundary, Lit ''FN'', Rep WhiteSpace 1])"
  have unfold: "paramRegex =
      Seq ?nb (Seq (Grp 1 (alts ?types)) (Seq (Rep WhiteSpace 1) (Seq (Grp 2 identRegex) WordBoundary)))"
    by (simp add: paramRegex_def)
  from assms obtain q0 c0 where
    s0: "(q0, c0) \<in> set (rmatch False ln ?nb (i, []))" and
    r0: "(e, c') \<in> set (rmatch False ln
          (Seq (Grp 1 (alts ?types)) (Seq (Rep WhiteSpace 1) (Seq (Grp 2 identRegex) WordBoundary)))
          (q0, c0))"
    unfolding unfold rmatch_Seq by blast
  from s0 show "rmatch False ln ?nb (i, []) \<noteq> []" by auto
  from s0 have q0: "q0 = i" and c0: "c0 = []"
    unfolding rmatch_NotBehind by simp_all
  from r0 obtain q1 c1 where
    s1: "(q1, c1) \<in> set (rmatch False ln (Grp 1 (alts ?types)) (q0, c0))" and
    r1: "(e, c') \<in> set (rmatch False ln
          (Seq (Rep WhiteSpace 1) (Seq (Grp 2 identRegex) WordBoundary)) (q1, c1))"
    unfolding rmatch_Seq by blast
  from s1 obtain ca where c1: "c1 = (1, q0, q1) # ca"
    and a1: "(q1, ca) \<in> set (rmatch False ln (alts ?types) (q0, c0))"
    unfolding rmatch_Grp by blast
  from rmatch_noGroups [OF a1 noGroups_alts] have ca: "ca = c0" .
  from rmatch_alts [OF a1] obtain ty where ty: "ty \<in> set ?types"
    and lit: "litAt False ln ty q0" and q1: "q1 = q0 + length ty" by blast
  from r1 obtain q2 c2 where
    s2: "(q2, c2) \<in> set (rmatch False ln (Rep WhiteSpace 1) (q1, c1))" and
    r2: "(e, c') \<in> set (rmatch False ln (Seq (Grp 2 identRegex) WordBoundary) (q2, c2))"
    unfolding rmatch_Seq by blast
  from rmatch_noGroups [OF s2] have c2: "c2 = c1" by simp
  from r2 obtain q3 c3 where
    s3: "(q3, c3) \<in> set (rmatch False ln (Grp 2 identRegex) (q2, c2))" and
    r3: "(e, c') \<in> set (rmatch False ln WordBoundary (q3, c3))"
    unfolding rmatch_Seq by blast
  from s3 obtain cb where c3: "c3 = (2, q2, q3) # cb"
    and a3: "(q3, cb) \<in> set (rmatch False ln identRegex (q2, c2))"
    unfolding rmatch_Grp by blast
  from rmatch_noGroups [OF a3] have cb: "cb = c2" by (simp add: identRegex_def)
  from rmatch_noGroups [OF r3] have c': "c' = c3" by simp
  from r3 have e: "e = q3" unfolding rmatch_WordBoundary by simp
  from lit have "take (length ty) (drop i ln) = ty" by (simp add: litAt_False q0)
  moreover have "c' = [(2, q2, e), (1, i, i + length ty)]"
    by (simp add: c' c3 cb c2 c1 ca c0 q1 q0 e)
  ultimately show "\<exists>ty q2. ty \<in> set ?types \<and> take (length ty) (drop i ln) = ty \<and>
           c' = [(2, q2, e), (1, i, i + length ty)]"
    using ty by blast
qed

lemma paramRegex_type:
  assumes "regexExec False paramRegex ln lastIndex = Some m"
  shows "\<exists>ty\<in>set [''STRING'', ''INT'', ''FLOAT'', ''CHAR'']. capture ln m 1 = Some ty"
proof -
  from assms have "firstMatch False paramRegex ln [lastIndex ..< Suc (length ln)] = Some m"
    by (auto simp: regexExec_def split: if_splits)
  from firstMatch_Some [OF this]
  have "(endIndex m, groups m) \<in> set (rmatch False ln paramRegex (index m, []))" by simp
  from rmatch_paramRegex(1) [OF this] obtain ty q2 where
    ty: "ty \<in> set [''STRING'', ''INT'', ''FLOAT'', ''CHAR'']" and
    tk: "take (length ty) (drop (index m) ln) = ty" and
    g: "groups m = [(2, q2, endIndex m), (1, index m, index m + length ty)]" by blast
  from g tk have "capture ln m 1 = Some ty" by (simp add: capture_def)
  with ty show ?thesis by blast
qed

text \<open>
  The text before a position ends with the word \<open>FN\<close> and white space: then the pattern
  of the lookbehind matches a text that ends at the position, so the lookbehind rejects it.
\<close>

lemma fn_behind_matches:
  assumes ln: "ln = pre @ ''FN'' @ ws @ post" and ws: "ws \<noteq> []" "\<forall>c\<in>set ws. isSpace c"
    and pre: "pre = [] \<or> \<not> isWordChar (last pre)"
  shows "(length pre + 2 + length ws, c) \<in>
     set (rmatch False ln (seqs [WordBoundary, Lit ''FN'', Rep WhiteSpace 1]) (length pre, c))"
proof -
  let ?j = "length pre"
  have F: "ln ! ?j = CHR ''F''" by (simp add: ln nth_append)
  have lt: "?j < length ln" by (simp add: ln)
  have here: "wordCharAt ln ?j"
    by (simp add: wordCharAt_def lt F isWordChar_def inRange_def between_def)
  have before: "\<not> (0 < ?j \<and> wordCharAt ln (?j - 1))"
  proof
    assume a: "0 < ?j \<and> wordCharAt ln (?j - 1)"
    then have ne: "pre \<noteq> []" by auto
    then have "ln ! (?j - 1) = last pre" by (simp add: ln nth_append last_conv_nth)
    with a have "isWordChar (last pre)" by (simp add: wordCharAt_def)
    with pre ne show False by simp
  qed
  from here before have wb: "isWordBoundary ln ?j" by (simp add: isWordBoundary_def)
  have lit: "litAt False ln ''FN'' ?j" by (simp add: litAt_False ln)
  have "drop (?j + 2) ln = ws @ post" by (simp add: ln)
  moreover have "inCharset False WhiteSpace = isSpace" by (rule ext) simp
  ultimately have k: "length (takeWhile (inCharset False WhiteSpace) (drop (?j + 2) ln)) =
      length ws + length (takeWhile isSpace post)"
    using ws(2) by (simp add: takeWhile_append)
  have "length ws \<in> set (rev [1 ..< Suc (length ws + length (takeWhile isSpace post))])"
    using ws(1) by (simp del: upt_Suc add: Suc_le_eq)
  then have rep: "(?j + 2 + length ws, c) \<in> set (rmatch False ln (Rep WhiteSpace 1) (?j + 2, c))"
    unfolding rmatch.simps k Let_def by (simp del: upt_Suc)
  have s1: "(?j, c) \<in> set (rmatch False ln WordBoundary (?j, c))"
    using wb by (simp add: rmatch_WordBoundary)
  have s2: "(?j + 2, c) \<in> set (rmatch False ln (Lit ''FN'') (?j, c))"
    using lit by (simp add: rmatch.simps)
  have "seqs [WordBoundary, Lit ''FN'', Rep WhiteSpace 1] =
      Seq WordBoundary (Seq (Lit ''FN'') (Rep WhiteSpace 1))" by simp
  then show ?thesis unfolding rmatch_Seq using s1 s2 rep by (simp only: rmatch_Seq) blast
qed

lemma paramRegex_not_after_FN:
  assumes tk: "take i ln = pre @ ''FN'' @ ws" and ws: "ws \<noteq> []" "\<forall>c\<in>set ws. isSpace c"
    and pre: "pre = [] \<or> \<not> isWordChar (last pre)"
    and m: "regexExec False paramRegex ln lastIndex = Some m"
  shows "index m \<noteq> i"
proof
  assume eq: "index m = i"
  from regexExec_bounds [OF m] eq have le: "i \<le> length ln" by simp
  from m have "firstMatch False paramRegex ln [lastIndex ..< Suc (length ln)] = Some m"
    by (auto simp: regexExec_def split: if_splits)
  from firstMatch_Some [OF this] eq
  have "(endIndex m, groups m) \<in> set (rmatch False ln paramRegex (i, []))" by simp
  from rmatch_paramRegex(2) [OF this]
  have "(i, []) \<in> set (rmatch False ln
      (NotBehind (seqs [WordBoundary, Lit ''FN'', Rep WhiteSpace 1])) (i, []))"
    by (auto simp: rmatch.simps split: if_splits)
  then have no: "\<not> list_ex (\<lambda>j. list_ex (\<lambda>(q, c'). q = i)
      (rmatch False ln (seqs [WordBoundary, Lit ''FN'', Rep WhiteSpace 1]) (j, []))) [0 ..< Suc i]"
    unfolding rmatch_NotBehind by simp
  have "ln = take i ln @ drop i ln" by simp
  with tk have ln: "ln = pre @ ''FN'' @ ws @ drop i ln" by simp
  from le have "length (take i ln) = i" by simp
  with tk have i: "i = length pre + 2 + length ws" by simp
  from fn_behind_matches [OF ln ws pre, of "[]"] i
  have "(i, []) \<in> set (rmatch False ln (seqs [WordBoundary, Lit ''FN'', Rep WhiteSpace 1])
      (length pre, []))" by simp
  moreover from i have "length pre \<in> set [0 ..< Suc i]" by simp
  ultimately have "list_ex (\<lambda>j. list_ex (\<lambda>(q, c'). q = i)
      (rmatch False ln (seqs [WordBoundary, Lit ''FN'', Rep WhiteSpace 1]) (j, []))) [0 ..< Suc i]"
    unfolding list_ex_iff by blast
  with no show False ..
qed

lemma variableLoop_types:
  assumes "variableLoop ln lastIndex acc = Inr vs"
    and "\<forall>v\<in>set acc. containerName v \<in> set [''STRING'', ''INT'', ''FLOAT'', ''CHAR'']"
  shows "\<forall>v\<in>set vs. containerName v \<in> set [''STRING'', ''INT'', ''FLOAT'', ''CHAR'']"
  using assms
proof (induction ln lastIndex acc rule: variableLoop.induct)
  case (1 ln lastIndex acc)
  show ?case
  proof (cases "regexExec False paramRegex ln lastIndex")
    case None
    with "1.prems" show ?thesis by (simp add: variableLoop.simps)
  next
    case (Some m)
    from paramRegex_type [OF Some] obtain ty
      where ty: "ty \<in> set [''STRING'', ''INT'', ''FLOAT'', ''CHAR'']"
        and c1: "capture ln m 1 = Some ty" by blast
    from capture_defined [OF Some setsGroup_paramRegex(2)] obtain nm
      where c2: "capture ln m 2 = Some nm" ..
    from "1.prems"(1) Some c1 c2
    have run: "variableLoop ln (endIndex m) (acc @ [\<lparr>varName = nm, containerName = ty\<rparr>]) = Inr vs"
      by (subst (asm) variableLoop.simps) simp
    from "1.prems"(2) ty
    have "\<forall>v\<in>set (acc @ [\<lparr>varName = nm, containerName = ty\<rparr>]).
        containerName v \<in> set [''STRING'', ''INT'', ''FLOAT'', ''CHAR'']" by simp
    from "1.IH" [OF Some c1 c2 run this] show ?thesis .
  qed
qed

lemma variableLines_types:
  assumes "variableLines acc lns = Inr vs"
    and "\<forall>v\<in>set acc. containerName v \<in> set [''STRING'', ''INT'', ''FLOAT'', ''CHAR'']"
  shows "\<forall>v\<in>set vs. containerName v \<in> set [''STRING'', ''INT'', ''FLOAT'', ''CHAR'']"
  using assms
proof (induction lns arbitrary: acc)
  case Nil
  then show ?case by simp
next
  case (Cons ln rest)
  from Cons.prems(1) obtain acc1 where a: "variableLoop ln 0 acc = Inr acc1"
    and b: "variableLines acc1 rest = Inr vs" by (auto split: sum.splits)
  from Cons.IH [OF b variableLoop_types [OF a Cons.prems(2)]] show ?case .
qed

section \<open>What the handlers return\<close>

lemma validateTextDocument_no_diagnostics:
  "fst (validateTextDocument positionAt getConfiguration st textDocument) = []"
  by (simp add: validateTextDocument_def split_beta validateLoop_unchanged)


text \<open>
  A header line, body lines and a line that trims to \<^verbatim>\<open>END FN\<close>: the scan emits one
  symbol, named by the first group of the header pattern, is outside a function again,
  and the completion handler offers the name as a function.
\<close>

lemma function_block_completion:
  assumes doc: "documents st textDocumentUri = Some document"
    and lns: "documentLines document = pre @ h # body @ e # post"
    and pre: "scanLines scanStart pre = Inr s0" "\<not> isInFunction s0"
    and hdr: "regexExec True functionStartRegex h 0 = Some m" "capture h m 1 = Some nm"
    and body: "\<forall>b\<in>set body. trim b \<noteq> ''END FN''"
    and fin: "trim e = ''END FN''"
  shows "\<exists>s1. scanLines scanStart (pre @ h # body @ [e]) = Inr s1 \<and> \<not> isInFunction s1 \<and>
           length (functionDeclarations s1) = Suc (length (functionDeclarations s0))"
    and "\<exists>cs. onCompletion st textDocumentUri position = Inr cs \<and>
           \<lparr>label = nm, kind = Function, detail = None\<rparr> \<in> set cs"
proof -
  from capture_defined [OF hdr(1) setsGroup_functionStartRegex(2)] obtain ps
    where ps: "capture h m 2 = Some ps" ..
  let ?f = "\<lparr>name = nm, params = map trim (split_on ps CHR '','') @ concat (map bodyParams body)\<rparr>"
  let ?s1 = "s0\<lparr>functionDeclarations := functionDeclarations s0 @ [?f],
                functionName := [], functionParams := [], isInFunction := False\<rparr>"
  from scanLines_block [OF pre(2) hdr ps body fin]
  have blk: "scanLines s0 (h # body @ [e]) = Inr ?s1" .
  with pre(1) have upto: "scanLines scanStart (pre @ h # body @ [e]) = Inr ?s1"
    by (simp only: scanLines_append sum.case)
  then show "\<exists>s1. scanLines scanStart (pre @ h # body @ [e]) = Inr s1 \<and> \<not> isInFunction s1 \<and>
           length (functionDeclarations s1) = Suc (length (functionDeclarations s0))"
    by simp
  from scanLines_total [of ?s1 post] obtain s2 where post: "scanLines ?s1 post = Inr s2" ..
  from scanLines_only_appends [OF post] obtain fs
    where fs: "functionDeclarations s2 = functionDeclarations s0 @ ?f # fs" by auto
  have "pre @ h # body @ e # post = (pre @ h # body @ [e]) @ post" by simp
  with lns upto post have "scanLines scanStart (documentLines document) = Inr s2"
    by (simp only: scanLines_append sum.case)
  with fs have ef: "extractFunctionDeclarations document = Inr (functionDeclarations s0 @ ?f # fs)"
    by (simp add: extractFunctionDeclarations_def)
  from extractVariableDeclarations_total [of document] obtain vs
    where vs: "extractVariableDeclarations document = Inr vs" ..
  from doc vs ef show "\<exists>cs. onCompletion st textDocumentUri position = Inr cs \<and>
           \<lparr>label = nm, kind = Function, detail = None\<rparr> \<in> set cs"
    by (simp add: onCompletion_def pushVariables_map pushFunctions_map)
qed

lemma getDocumentSettings_again:
  "getDocumentSettings getConfiguration (snd (getDocumentSettings getConfiguration st resource)) resource =
     (fst (getDocumentSettings getConfiguration st resource),
      snd (getDocumentSettings getConfiguration st resource))"
  by (simp add: getDocumentSettings_def Let_def split: option.split)

lemma getDocumentSettings_frame:
  "documents (snd (getDocumentSettings getConfiguration st resource)) = documents st"
  "hasDiagnosticRelatedInformationCapability (snd (getDocumentSettings getConfiguration st resource)) =
     hasDiagnosticRelatedInformationCapability st"
  by (simp_all add: getDocumentSettings_def Let_def split: option.split)

text \<open>What a validation writes: the settings of the document, when they were not cached.\<close>

lemma validateTextDocument_state:
  "snd (validateTextDocument positionAt getConfiguration st textDocument) =
     (if hasConfigurationCapability st \<and> documentSettings st (uri textDocument) = None
      then st\<lparr>documentSettings :=
                (documentSettings st)(uri textDocument \<mapsto> getConfiguration (uri textDocument))\<rparr>
      else st)"
  by (auto simp: validateTextDocument_def getDocumentSettings_def Let_def split: option.split)

lemma sample_variables:
  "extractVariableDeclarations
     \<lparr>uri = ''file:///a.code'', getText = ''INT y\<newline>FN foo(a)\<newline>END FN''\<rparr> =
   Inr [\<lparr>varName = ''y'', containerName = ''INT''\<rparr>]"
  by code_simp

lemma sample_functions:
  "extractFunctionDeclarations
     \<lparr>uri = ''file:///a.code'', getText = ''INT y\<newline>FN foo(a)\<newline>END FN''\<rparr> =
   Inr [\<lparr>name = ''foo'', params = [''a'']\<rparr>]"
  by code_simp

section \<open>The claims\<close>

subsection \<open>C1: the diagnostics of the upper-case words\<close>

text \<open>
  Claim C1 says that \<open>validateTextDocument\<close> returns \<open>min k m\<close> warnings for \<open>k\<close>
  upper-case words and a limit of \<open>m\<close>, one for \<^verbatim>\<open>ABC\<close> in \<^verbatim>\<open>ABC def GHI\<close> with the
  limit 1. The source does not: on that text and limit the pattern finds \<^verbatim>\<open>ABC\<close> at
  offsets 0 to 3 and the loop body builds the diagnostic with the message
  \<^verbatim>\<open>ABC is all uppercase.\<close>, but the body never adds it to the list, and the list
  returned is empty (\<open>validateTextDocument_no_diagnostics\<close>: on every input).
\<close>

theorem uppercase_diagnostics_dropped:
  "regexExec False upperCasePattern ''ABC def GHI'' 0 =
     Some \<lparr>index = 0, endIndex = 3, groups = []\<rparr> \<and>
   message (buildDiagnostic (\<lambda>d n. \<lparr>line = 0, character = n\<rparr>) False
      \<lparr>uri = ''file:///a.code'', getText = ''ABC def GHI''\<rparr>
      \<lparr>index = 0, endIndex = 3, groups = []\<rparr>) = ''ABC is all uppercase.'' \<and>
   fst (validateTextDocument (\<lambda>d n. \<lparr>line = 0, character = n\<rparr>)
          (\<lambda>r. \<lparr>maxNumberOfProblems = 1\<rparr>)
          (initialState\<lparr>globalSettings := \<lparr>maxNumberOfProblems = 1\<rparr>\<rparr>)
          \<lparr>uri = ''file:///a.code'', getText = ''ABC def GHI''\<rparr>) = []"
proof (intro conjI)
  show "regexExec False upperCasePattern ''ABC def GHI'' 0 =
     Some \<lparr>index = 0, endIndex = 3, groups = []\<rparr>"
    by code_simp
  show "message (buildDiagnostic (\<lambda>d n. \<lparr>line = 0, character = n\<rparr>) False
      \<lparr>uri = ''file:///a.code'', getText = ''ABC def GHI''\<rparr>
      \<lparr>index = 0, endIndex = 3, groups = []\<rparr>) = ''ABC is all uppercase.''"
    by (simp add: buildDiagnostic_def matched_def Let_def)
  show "fst (validateTextDocument (\<lambda>d n. \<lparr>line = 0, character = n\<rparr>)
          (\<lambda>r. \<lparr>maxNumberOfProblems = 1\<rparr>)
          (initialState\<lparr>globalSettings := \<lparr>maxNumberOfProblems = 1\<rparr>\<rparr>)
          \<lparr>uri = ''file:///a.code'', getText = ''ABC def GHI''\<rparr>) = []"
    by (rule validateTextDocument_no_diagnostics)
qed

subsection \<open>C2: the parameters of \<open>greet\<close>\<close>

text \<open>
  Claim C2, as the source has it. A header line, body lines and a line that trims to
  \<^verbatim>\<open>END FN\<close> give one symbol whose parameters are the tokens of the header between
  the parentheses, split at commas and trimmed, followed by the typed tokens of the body
  lines, each as type, space, name. The text \<^verbatim>\<open>FN STRING greet(name: STRING) END FN\<close>
  on one line gives no function symbol: the header pattern takes the line, and no later
  line closes the function. With \<^verbatim>\<open>END FN\<close> on a line of its own the text gives one
  symbol, \<open>greet\<close>, with the one parameter \<^verbatim>\<open>name: STRING\<close>, the header's token; a
  body line \<^verbatim>\<open>name: STRING\<close> adds \<^verbatim>\<open>STRING name\<close> after it.
\<close>

theorem greet_params_amended:
  "(\<not> isInFunction st \<and> regexExec True functionStartRegex h 0 = Some m \<and>
    capture h m 1 = Some nm \<and> capture h m 2 = Some ps \<and>
    (\<forall>b\<in>set body. trim b \<noteq> ''END FN'') \<and> trim e = ''END FN'' \<longrightarrow>
    (\<exists>st'. scanLines st (h # body @ [e]) = Inr st' \<and>
       functionDeclarations st' =
         functionDeclarations st @
         [\<lparr>name = nm,
           params = map trim (split_on ps CHR '','') @ concat (map bodyParams body)\<rparr>])) \<and>
   extractFunctionDeclarations
     \<lparr>uri = u, getText = ''FN STRING greet(name: STRING) END FN''\<rparr> = Inr [] \<and>
   extractFunctionDeclarations
     \<lparr>uri = u, getText = ''FN STRING greet(name: STRING)\<newline>END FN''\<rparr> =
     Inr [\<lparr>name = ''greet'', params = [''name: STRING'']\<rparr>] \<and>
   extractFunctionDeclarations
     \<lparr>uri = u, getText = ''FN STRING greet(name: STRING)\<newline>  name: STRING\<newline>END FN''\<rparr> =
     Inr [\<lparr>name = ''greet'', params = [''name: STRING'', ''STRING name'']\<rparr>]"
proof (intro conjI impI)
  assume a: "\<not> isInFunction st \<and> regexExec True functionStartRegex h 0 = Some m \<and>
    capture h m 1 = Some nm \<and> capture h m 2 = Some ps \<and>
    (\<forall>b\<in>set body. trim b \<noteq> ''END FN'') \<and> trim e = ''END FN''"
  then have 1: "\<not> isInFunction st" and 2: "regexExec True functionStartRegex h 0 = Some m"
    and 3: "capture h m 1 = Some nm" and 4: "capture h m 2 = Some ps"
    and 5: "\<forall>b\<in>set body. trim b \<noteq> ''END FN''" and 6: "trim e = ''END FN''" by simp_all
  from scanLines_block [OF 1 2 3 4 5 6]
  show "\<exists>st'. scanLines st (h # body @ [e]) = Inr st' \<and>
       functionDeclarations st' =
         functionDeclarations st @
         [\<lparr>name = nm,
           params = map trim (split_on ps CHR '','') @ concat (map bodyParams body)\<rparr>]"
    by simp
next
  show "extractFunctionDeclarations
     \<lparr>uri = u, getText = ''FN STRING greet(name: STRING) END FN''\<rparr> = Inr []"
    by code_simp
  show "extractFunctionDeclarations
     \<lparr>uri = u, getText = ''FN STRING greet(name: STRING)\<newline>END FN''\<rparr> =
     Inr [\<lparr>name = ''greet'', params = [''name: STRING'']\<rparr>]"
    by code_simp
  show "extractFunctionDeclarations
     \<lparr>uri = u, getText = ''FN STRING greet(name: STRING)\<newline>  name: STRING\<newline>END FN''\<rparr> =
     Inr [\<lparr>name = ''greet'', params = [''name: STRING'', ''STRING name'']\<rparr>]"
    by code_simp
qed

theorem greet_params_amended_witness:
  "regexExec True functionStartRegex ''FN STRING greet(name: STRING)'' 0 =
     Some \<lparr>index = 0, endIndex = 29, groups = [(2, 16, 28), (1, 10, 15)]\<rparr> \<and>
   capture ''FN STRING greet(name: STRING)''
     \<lparr>index = 0, endIndex = 29, groups = [(2, 16, 28), (1, 10, 15)]\<rparr> 1 = Some ''greet'' \<and>
   capture ''FN STRING greet(name: STRING)''
     \<lparr>index = 0, endIndex = 29, groups = [(2, 16, 28), (1, 10, 15)]\<rparr> 2 = Some ''name: STRING'' \<and>
   trim ''  name: STRING'' \<noteq> ''END FN'' \<and> trim ''END FN'' = ''END FN'' \<and>
   map trim (split_on ''name: STRING'' CHR '','') = [''name: STRING''] \<and>
   bodyParams ''  name: STRING'' = [''STRING name''] \<and>
   (\<exists>st'. scanLines scanStart [''FN STRING greet(name: STRING)'', ''  name: STRING'', ''END FN''] =
            Inr st' \<and>
          functionDeclarations st' =
            [\<lparr>name = ''greet'', params = [''name: STRING'', ''STRING name'']\<rparr>])"
proof -
  let ?h = "''FN STRING greet(name: STRING)''"
  let ?m = "\<lparr>index = 0, endIndex = 29, groups = [(2, 16, 28), (1, 10, 15)]\<rparr>"
  have a: "\<not> isInFunction scanStart" by (simp add: scanStart_def)
  have b: "regexExec True functionStartRegex ?h 0 = Some ?m" by code_simp
  have c: "capture ?h ?m 1 = Some ''greet''" by (simp add: capture_def)
  have d: "capture ?h ?m 2 = Some ''name: STRING''" by (simp add: capture_def)
  have e: "trim ''  name: STRING'' \<noteq> ''END FN''" by (simp add: trim_def isSpace_def)
  then have e': "\<forall>b\<in>set [''  name: STRING'']. trim b \<noteq> ''END FN''" by simp
  have f: "trim ''END FN'' = ''END FN''" by (simp add: trim_def isSpace_def)
  have g: "map trim (split_on ''name: STRING'' CHR '','') = [''name: STRING'']" by code_simp
  have h: "bodyParams ''  name: STRING'' = [''STRING name'']" by code_simp
  have i: "functionDeclarations scanStart = []" by (simp add: scanStart_def)
  from greet_params_amended [of scanStart ?h ?m "''greet''" "''name: STRING''"
      "[''  name: STRING'']" "''END FN''" "''file:///a.code''"] a b c d e' f
  have "\<exists>st'. scanLines scanStart (?h # [''  name: STRING''] @ [''END FN'']) = Inr st' \<and>
       functionDeclarations st' =
         functionDeclarations scanStart @
         [\<lparr>name = ''greet'',
           params = map trim (split_on ''name: STRING'' CHR '','') @
                    concat (map bodyParams [''  name: STRING''])\<rparr>]"
    by blast
  then have "\<exists>st'. scanLines scanStart [?h, ''  name: STRING'', ''END FN''] = Inr st' \<and>
          functionDeclarations st' =
            [\<lparr>name = ''greet'', params = [''name: STRING'', ''STRING name'']\<rparr>]"
    by (simp add: g h i)
  with b c d e f g h show ?thesis by blast
qed

text \<open>
  Against C2 as stated: neither on one line nor with \<^verbatim>\<open>END FN\<close> on its own line does
  the text give the one symbol \<open>greet\<close> with the parameters \<^verbatim>\<open>name\<close> and
  \<^verbatim>\<open>STRING name\<close>.
\<close>

theorem greet_params_counterexample:
  "extractFunctionDeclarations
     \<lparr>uri = ''file:///a.code'', getText = ''FN STRING greet(name: STRING) END FN''\<rparr> \<noteq>
     Inr [\<lparr>name = ''greet'', params = [''name'', ''STRING name'']\<rparr>] \<and>
   extractFunctionDeclarations
     \<lparr>uri = ''file:///a.code'', getText = ''FN STRING greet(name: STRING)\<newline>END FN''\<rparr> \<noteq>
     Inr [\<lparr>name = ''greet'', params = [''name'', ''STRING name'']\<rparr>]"
proof -
  have "extractFunctionDeclarations
     \<lparr>uri = ''file:///a.code'', getText = ''FN STRING greet(name: STRING) END FN''\<rparr> = Inr []"
    by code_simp
  moreover have "extractFunctionDeclarations
     \<lparr>uri = ''file:///a.code'', getText = ''FN STRING greet(name: STRING)\<newline>END FN''\<rparr> =
     Inr [\<lparr>name = ''greet'', params = [''name: STRING'']\<rparr>]"
    by code_simp
  ultimately show ?thesis by simp
qed

subsection \<open>C3: a function block and its completion item\<close>

text \<open>
  Claim C3 says that a block \<^verbatim>\<open>FN NAME(...)\<close>, body lines, \<^verbatim>\<open>END FN\<close> gives a
  completion item of kind \<open>Function\<close> labelled \<open>NAME\<close>. The scan does emit one symbol at
  the \<^verbatim>\<open>END FN\<close> line and is outside a function again (\<open>function_block_completion\<close>),
  but the symbol's name is the first group of the header pattern, and the pattern lets the
  optional return type take the start of a name: it is matched without regard to case and
  need not be followed by white space. For the block \<^verbatim>\<open>FN integer(a)\<close>, \<^verbatim>\<open>END FN\<close>
  the symbol and the completion item are named \<^verbatim>\<open>eger\<close>, and no item is labelled
  \<^verbatim>\<open>integer\<close>.
\<close>

theorem truncated_function_name:
  "extractFunctionDeclarations
     \<lparr>uri = ''file:///a.code'', getText = ''FN integer(a)\<newline>END FN''\<rparr> =
     Inr [\<lparr>name = ''eger'', params = [''a'']\<rparr>] \<and>
   onCompletion
     (initialState\<lparr>documents :=
        [''file:///a.code'' \<mapsto>
           \<lparr>uri = ''file:///a.code'', getText = ''FN integer(a)\<newline>END FN''\<rparr>]\<rparr>)
     ''file:///a.code'' \<lparr>line = 0, character = 0\<rparr> =
     Inr (fixedItems @ [\<lparr>label = ''eger'', kind = Function, detail = None\<rparr>])"
proof (intro conjI)
  show "extractFunctionDeclarations
     \<lparr>uri = ''file:///a.code'', getText = ''FN integer(a)\<newline>END FN''\<rparr> =
     Inr [\<lparr>name = ''eger'', params = [''a'']\<rparr>]"
    by code_simp
  show "onCompletion
     (initialState\<lparr>documents :=
        [''file:///a.code'' \<mapsto>
           \<lparr>uri = ''file:///a.code'', getText = ''FN integer(a)\<newline>END FN''\<rparr>]\<rparr>)
     ''file:///a.code'' \<lparr>line = 0, character = 0\<rparr> =
     Inr (fixedItems @ [\<lparr>label = ''eger'', kind = Function, detail = None\<rparr>])"
    by code_simp
qed

subsection \<open>C4: a function that is never closed\<close>

text \<open>
  Claim C4. When the lines before a header leave the scan outside a function, and no line
  after the header trims to \<^verbatim>\<open>END FN\<close>, the document gives exactly the function symbols
  that the lines before the header gave: the open function gives none, and the result is
  a list, not an error. For \<^verbatim>\<open>FN foo(a)\<close> followed by the line \<^verbatim>\<open> INT x\<close> (with or
  without a space after the header) there is no function symbol, and one variable symbol,
  \<open>x\<close> of type \<open>INT\<close>; and the validator, which does not look at functions, returns no
  diagnostic for the text.
\<close>

theorem unterminated_function_dropped:
  "(documentLines document = pre @ h # body \<and> scanLines scanStart pre = Inr st \<and>
    \<not> isInFunction st \<and> regexExec True functionStartRegex h 0 \<noteq> None \<and>
    (\<forall>b\<in>set body. trim b \<noteq> ''END FN'') \<longrightarrow>
      extractFunctionDeclarations document = Inr (functionDeclarations st)) \<and>
   extractFunctionDeclarations \<lparr>uri = u, getText = ''FN foo(a)\<newline> INT x''\<rparr> = Inr [] \<and>
   extractVariableDeclarations \<lparr>uri = u, getText = ''FN foo(a)\<newline> INT x''\<rparr> =
     Inr [\<lparr>varName = ''x'', containerName = ''INT''\<rparr>] \<and>
   extractFunctionDeclarations \<lparr>uri = u, getText = ''FN foo(a) \<newline> INT x''\<rparr> = Inr [] \<and>
   extractVariableDeclarations \<lparr>uri = u, getText = ''FN foo(a) \<newline> INT x''\<rparr> =
     Inr [\<lparr>varName = ''x'', containerName = ''INT''\<rparr>] \<and>
   fst (validateTextDocument positionAt getConfiguration server
          \<lparr>uri = u, getText = ''FN foo(a)\<newline> INT x''\<rparr>) = [] \<and>
   fst (validateTextDocument positionAt getConfiguration server
          \<lparr>uri = u, getText = ''FN foo(a) \<newline> INT x''\<rparr>) = []"
proof (intro conjI impI)
  assume a: "documentLines document = pre @ h # body \<and> scanLines scanStart pre = Inr st \<and>
    \<not> isInFunction st \<and> regexExec True functionStartRegex h 0 \<noteq> None \<and>
    (\<forall>b\<in>set body. trim b \<noteq> ''END FN'')"
  then obtain m where m: "regexExec True functionStartRegex h 0 = Some m" by auto
  from capture_defined [OF m setsGroup_functionStartRegex(1)] obtain nm
    where nm: "capture h m 1 = Some nm" ..
  from capture_defined [OF m setsGroup_functionStartRegex(2)] obtain ps
    where ps: "capture h m 2 = Some ps" ..
  from a have out: "\<not> isInFunction st" by simp
  let ?st1 = "st\<lparr>functionName := nm, functionParams := map trim (split_on ps CHR '',''),
                 isInFunction := True\<rparr>"
  have h: "scanLine st h = Inr ?st1" by (rule scanLine_header [OF out m nm ps])
  have "isInFunction ?st1" by simp
  moreover from a have "\<forall>b\<in>set body. trim b \<noteq> ''END FN''" by simp
  ultimately have b: "scanLines ?st1 body =
      Inr (?st1\<lparr>functionParams := functionParams ?st1 @ concat (map bodyParams body)\<rparr>)"
    by (rule scanLines_body)
  from a h b have "scanLines scanStart (documentLines document) =
      Inr (?st1\<lparr>functionParams := functionParams ?st1 @ concat (map bodyParams body)\<rparr>)"
    by (simp add: scanLines_append)
  then show "extractFunctionDeclarations document = Inr (functionDeclarations st)"
    by (simp add: extractFunctionDeclarations_def)
next
  show "extractFunctionDeclarations \<lparr>uri = u, getText = ''FN foo(a)\<newline> INT x''\<rparr> = Inr []"
    by code_simp
  show "extractVariableDeclarations \<lparr>uri = u, getText = ''FN foo(a)\<newline> INT x''\<rparr> =
     Inr [\<lparr>varName = ''x'', containerName = ''INT''\<rparr>]"
    by code_simp
  show "extractFunctionDeclarations \<lparr>uri = u, getText = ''FN foo(a) \<newline> INT x''\<rparr> = Inr []"
    by code_simp
  show "extractVariableDeclarations \<lparr>uri = u, getText = ''FN foo(a) \<newline> INT x''\<rparr> =
     Inr [\<lparr>varName = ''x'', containerName = ''INT''\<rparr>]"
    by code_simp
  show "fst (validateTextDocument positionAt getConfiguration server
          \<lparr>uri = u, getText = ''FN foo(a)\<newline> INT x''\<rparr>) = []"
    by (rule validateTextDocument_no_diagnostics)
  show "fst (validateTextDocument positionAt getConfiguration server
          \<lparr>uri = u, getText = ''FN foo(a) \<newline> INT x''\<rparr>) = []"
    by (rule validateTextDocument_no_diagnostics)
qed

theorem unterminated_function_dropped_witness:
  "documentLines \<lparr>uri = ''file:///a.code'', getText = ''FN foo(a)\<newline> INT x''\<rparr> =
     [] @ ''FN foo(a)'' # ['' INT x''] \<and>
   scanLines scanStart [] = Inr scanStart \<and>
   \<not> isInFunction scanStart \<and>
   regexExec True functionStartRegex ''FN foo(a)'' 0 \<noteq> None \<and>
   trim '' INT x'' \<noteq> ''END FN'' \<and>
   extractFunctionDeclarations \<lparr>uri = ''file:///a.code'', getText = ''FN foo(a)\<newline> INT x''\<rparr> =
     Inr (functionDeclarations scanStart) \<and>
   functionDeclarations scanStart = []"
proof -
  have a: "documentLines \<lparr>uri = ''file:///a.code'', getText = ''FN foo(a)\<newline> INT x''\<rparr> =
     [] @ ''FN foo(a)'' # ['' INT x'']"
    by (simp add: documentLines_def split_on_def)
  have b: "scanLines scanStart [] = Inr scanStart" by simp
  have c: "\<not> isInFunction scanStart" by (simp add: scanStart_def)
  have "regexExec True functionStartRegex ''FN foo(a)'' 0 =
      Some \<lparr>index = 0, endIndex = 9, groups = [(2, 7, 8), (1, 3, 6)]\<rparr>" by code_simp
  then have d: "regexExec True functionStartRegex ''FN foo(a)'' 0 \<noteq> None" by simp
  have e: "trim '' INT x'' \<noteq> ''END FN''" by (simp add: trim_def isSpace_def)
  then have e': "\<forall>b\<in>set ['' INT x'']. trim b \<noteq> ''END FN''" by simp
  from unterminated_function_dropped
    [of "\<lparr>uri = ''file:///a.code'', getText = ''FN foo(a)\<newline> INT x''\<rparr>" "[]" "''FN foo(a)''"
        "['' INT x'']" scanStart]
  have "documentLines \<lparr>uri = ''file:///a.code'', getText = ''FN foo(a)\<newline> INT x''\<rparr> =
          [] @ ''FN foo(a)'' # ['' INT x''] \<and> scanLines scanStart [] = Inr scanStart \<and>
        \<not> isInFunction scanStart \<and> regexExec True functionStartRegex ''FN foo(a)'' 0 \<noteq> None \<and>
        (\<forall>b\<in>set ['' INT x'']. trim b \<noteq> ''END FN'') \<longrightarrow>
        extractFunctionDeclarations \<lparr>uri = ''file:///a.code'', getText = ''FN foo(a)\<newline> INT x''\<rparr> =
          Inr (functionDeclarations scanStart)"
    by (rule conjunct1)
  with a b c d e' have "extractFunctionDeclarations
      \<lparr>uri = ''file:///a.code'', getText = ''FN foo(a)\<newline> INT x''\<rparr> =
        Inr (functionDeclarations scanStart)" by blast
  moreover have "functionDeclarations scanStart = []" by (simp add: scanStart_def)
  ultimately show ?thesis using a b c d e by blast
qed

subsection \<open>C5: the types of the variables, and the lookbehind\<close>

text \<open>
  Claim C5, as the source has it. Every variable symbol has one of the types \<open>STRING\<close>,
  \<open>INT\<close>, \<open>FLOAT\<close>, \<open>CHAR\<close>, never \<open>BOOL\<close>. No match of the variable pattern starts
  where the text before ends with the word \<open>FN\<close> and one or more white-space characters,
  the word \<open>FN\<close> being at the start of the line or after a character that is not a word
  character (the \<^verbatim>\<open>\bFN\s+\<close> of the lookbehind). So for \<^verbatim>\<open>FN INT getX() END FN\<close>
  followed by the line \<^verbatim>\<open>INT y\<close> the only variable is \<open>y\<close> of type \<open>INT\<close>.
\<close>

theorem variable_declarations_amended:
  "(extractVariableDeclarations document = Inr vs \<longrightarrow>
      (\<forall>v\<in>set vs. containerName v \<in> {''STRING'', ''INT'', ''FLOAT'', ''CHAR''} \<and>
                  containerName v \<noteq> ''BOOL'')) \<and>
   (take i ln = pre @ ''FN'' @ ws \<and> ws \<noteq> [] \<and> (\<forall>c\<in>set ws. isSpace c) \<and>
    (pre = [] \<or> \<not> isWordChar (last pre)) \<and>
    regexExec False paramRegex ln lastIndex = Some m \<longrightarrow> index m \<noteq> i) \<and>
   extractVariableDeclarations \<lparr>uri = u, getText = ''FN INT getX() END FN\<newline>INT y''\<rparr> =
     Inr [\<lparr>varName = ''y'', containerName = ''INT''\<rparr>]"
proof (intro conjI impI)
  assume "extractVariableDeclarations document = Inr vs"
  then have "variableLines [] (documentLines document) = Inr vs"
    by (simp add: extractVariableDeclarations_def)
  from variableLines_types [OF this]
  have "\<forall>v\<in>set vs. containerName v \<in> set [''STRING'', ''INT'', ''FLOAT'', ''CHAR'']" by simp
  then show "\<forall>v\<in>set vs. containerName v \<in> {''STRING'', ''INT'', ''FLOAT'', ''CHAR''} \<and>
                  containerName v \<noteq> ''BOOL''" by auto
next
  assume a: "take i ln = pre @ ''FN'' @ ws \<and> ws \<noteq> [] \<and> (\<forall>c\<in>set ws. isSpace c) \<and>
    (pre = [] \<or> \<not> isWordChar (last pre)) \<and>
    regexExec False paramRegex ln lastIndex = Some m"
  then have 1: "take i ln = pre @ ''FN'' @ ws" and 2: "ws \<noteq> []" and 3: "\<forall>c\<in>set ws. isSpace c"
    and 4: "pre = [] \<or> \<not> isWordChar (last pre)"
    and 5: "regexExec False paramRegex ln lastIndex = Some m" by simp_all
  show "index m \<noteq> i" by (rule paramRegex_not_after_FN [OF 1 2 3 4 5])
next
  show "extractVariableDeclarations \<lparr>uri = u, getText = ''FN INT getX() END FN\<newline>INT y''\<rparr> =
     Inr [\<lparr>varName = ''y'', containerName = ''INT''\<rparr>]"
    by code_simp
qed

theorem variable_declarations_amended_witness:
  "extractVariableDeclarations
     \<lparr>uri = ''file:///a.code'', getText = ''FN INT getX() END FN\<newline>INT y''\<rparr> =
     Inr [\<lparr>varName = ''y'', containerName = ''INT''\<rparr>] \<and>
   containerName \<lparr>varName = ''y'', containerName = ''INT''\<rparr> \<in> {''STRING'', ''INT'', ''FLOAT'', ''CHAR''} \<and>
   take 3 ''FN INT getX() INT y'' = [] @ ''FN'' @ '' '' \<and>
   isSpace CHR '' '' \<and>
   regexExec False paramRegex ''FN INT getX() INT y'' 0 =
     Some \<lparr>index = 14, endIndex = 19, groups = [(2, 18, 19), (1, 14, 17)]\<rparr> \<and>
   index \<lparr>index = 14, endIndex = 19, groups = [(2, 18, 19), (1, 14, 17)]\<rparr> \<noteq> (3::nat)"
proof -
  let ?d = "\<lparr>uri = ''file:///a.code'', getText = ''FN INT getX() END FN\<newline>INT y''\<rparr>"
  let ?m = "\<lparr>index = 14, endIndex = 19, groups = [(2, 18, 19), (1, 14, 17)]\<rparr>"
  note inst = variable_declarations_amended
    [of ?d "[\<lparr>varName = ''y'', containerName = ''INT''\<rparr>]" 3 "''FN INT getX() INT y''" "[]" "'' ''"
        0 ?m "''file:///a.code''"]
  have a: "extractVariableDeclarations ?d = Inr [\<lparr>varName = ''y'', containerName = ''INT''\<rparr>]"
    by code_simp
  from inst a have b: "\<forall>v\<in>set [\<lparr>varName = ''y'', containerName = ''INT''\<rparr>].
      containerName v \<in> {''STRING'', ''INT'', ''FLOAT'', ''CHAR''} \<and> containerName v \<noteq> ''BOOL''"
    by blast
  have c: "take 3 ''FN INT getX() INT y'' = [] @ ''FN'' @ '' ''" by simp
  have d: "isSpace CHR '' ''" by (simp add: isSpace_def)
  have e: "regexExec False paramRegex ''FN INT getX() INT y'' 0 = Some ?m" by code_simp
  from inst c d e have f: "index ?m \<noteq> (3::nat)" by simp
  from a b c d e f show ?thesis by simp
qed

text \<open>
  Against C5 as stated: in \<^verbatim>\<open>xFN INT y\<close> the match \<^verbatim>\<open>INT y\<close> comes right after
  \<^verbatim>\<open>FN\<close> and a space, and is reported all the same, since \<open>FN\<close> there is the end of
  the word \<^verbatim>\<open>xFN\<close>.
\<close>

theorem variable_after_glued_FN_counterexample:
  "take 4 ''xFN INT y'' = ''x'' @ ''FN'' @ '' '' \<and>
   regexExec False paramRegex ''xFN INT y'' 0 =
     Some \<lparr>index = 4, endIndex = 9, groups = [(2, 8, 9), (1, 4, 7)]\<rparr> \<and>
   extractVariableDeclarations \<lparr>uri = ''file:///a.code'', getText = ''xFN INT y''\<rparr> =
     Inr [\<lparr>varName = ''y'', containerName = ''INT''\<rparr>]"
proof (intro conjI)
  show "take 4 ''xFN INT y'' = ''x'' @ ''FN'' @ '' ''" by simp
  show "regexExec False paramRegex ''xFN INT y'' 0 =
     Some \<lparr>index = 4, endIndex = 9, groups = [(2, 8, 9), (1, 4, 7)]\<rparr>" by code_simp
  show "extractVariableDeclarations \<lparr>uri = ''file:///a.code'', getText = ''xFN INT y''\<rparr> =
     Inr [\<lparr>varName = ''y'', containerName = ''INT''\<rparr>]" by code_simp
qed

subsection \<open>C6: the related information\<close>



subsection \<open>C7: what the completion handler returns\<close>

text \<open>
  Claim C7. For a document of the store the completion handler returns the fifteen fixed
  items first (fourteen keywords, among them the two quoted boolean tokens, and the
  function \<open>scanString\<close>), then one item of kind \<open>Variable\<close> for each extracted variable,
  its detail the type, in extraction order, then one item of kind \<open>Function\<close> for each
  extracted function, in extraction order. The cursor position takes no part in the
  result, and nothing is filtered out.
\<close>

theorem completion_items_order:
  assumes "documents st textDocumentUri = Some document"
  shows "(\<exists>vs fs.
     extractVariableDeclarations document = Inr vs \<and>
     extractFunctionDeclarations document = Inr fs \<and>
     onCompletion st textDocumentUri position =
       Inr (fixedItems @
            map (\<lambda>v. \<lparr>label = varName v, kind = Variable, detail = Some (containerName v)\<rparr>) vs @
            map (\<lambda>f. \<lparr>label = name f, kind = Function, detail = None\<rparr>) fs)) \<and>
   map (\<lambda>i. (label i, kind i, detail i)) fixedItems =
     [(''BEGIN'', Keyword, None), (''END'', Keyword, None), (''IF'', Keyword, None),
      (''ELSE'', Keyword, None), (''WHILE'', Keyword, None), (''FN'', Keyword, None),
      (''STRING'', Keyword, None), (''CHAR'', Keyword, None), (''INT'', Keyword, None),
      (''FLOAT'', Keyword, None), (''BOOL'', Keyword, None),
      (CHR 0x22 # ''TRUE'' @ [CHR 0x22], Keyword, None),
      (CHR 0x22 # ''FALSE'' @ [CHR 0x22], Keyword, None),
      (''RETURN'', Keyword, None), (''scanString'', Function, None)]"
proof (rule conjI)
  from extractVariableDeclarations_total [of document] obtain vs
    where vs: "extractVariableDeclarations document = Inr vs" ..
  from extractFunctionDeclarations_total [of document] obtain fs
    where fs: "extractFunctionDeclarations document = Inr fs" ..
  show "\<exists>vs fs.
     extractVariableDeclarations document = Inr vs \<and>
     extractFunctionDeclarations document = Inr fs \<and>
     onCompletion st textDocumentUri position =
       Inr (fixedItems @
            map (\<lambda>v. \<lparr>label = varName v, kind = Variable, detail = Some (containerName v)\<rparr>) vs @
            map (\<lambda>f. \<lparr>label = name f, kind = Function, detail = None\<rparr>) fs)"
  proof (intro exI conjI)
    show "extractVariableDeclarations document = Inr vs" by (rule vs)
    show "extractFunctionDeclarations document = Inr fs" by (rule fs)
    show "onCompletion st textDocumentUri position =
       Inr (fixedItems @
            map (\<lambda>v. \<lparr>label = varName v, kind = Variable, detail = Some (containerName v)\<rparr>) vs @
            map (\<lambda>f. \<lparr>label = name f, kind = Function, detail = None\<rparr>) fs)"
      using assms vs fs by (simp add: onCompletion_def pushVariables_map pushFunctions_map)
  qed
next
  show "map (\<lambda>i. (label i, kind i, detail i)) fixedItems =
     [(''BEGIN'', Keyword, None), (''END'', Keyword, None), (''IF'', Keyword, None),
      (''ELSE'', Keyword, None), (''WHILE'', Keyword, None), (''FN'', Keyword, None),
      (''STRING'', Keyword, None), (''CHAR'', Keyword, None), (''INT'', Keyword, None),
      (''FLOAT'', Keyword, None), (''BOOL'', Keyword, None),
      (CHR 0x22 # ''TRUE'' @ [CHR 0x22], Keyword, None),
      (CHR 0x22 # ''FALSE'' @ [CHR 0x22], Keyword, None),
      (''RETURN'', Keyword, None), (''scanString'', Function, None)]"
    by (simp add: fixedItems_def keywordItem_def)
qed

theorem completion_items_order_witness:
  "onCompletion
     (initialState\<lparr>documents :=
        [''file:///a.code'' \<mapsto>
           \<lparr>uri = ''file:///a.code'', getText = ''INT y\<newline>FN foo(a)\<newline>END FN''\<rparr>]\<rparr>)
     ''file:///a.code'' \<lparr>line = 2, character = 3\<rparr> =
   Inr (fixedItems @
        [\<lparr>label = ''y'', kind = Variable, detail = Some ''INT''\<rparr>,
         \<lparr>label = ''foo'', kind = Function, detail = None\<rparr>])"
  using completion_items_order
    [of "initialState\<lparr>documents :=
        [''file:///a.code'' \<mapsto>
           \<lparr>uri = ''file:///a.code'', getText = ''INT y\<newline>FN foo(a)\<newline>END FN''\<rparr>]\<rparr>"
        "''file:///a.code''"
        "\<lparr>uri = ''file:///a.code'', getText = ''INT y\<newline>FN foo(a)\<newline>END FN''\<rparr>"
        "\<lparr>line = 2, character = 3\<rparr>"]
  by (simp add: sample_variables sample_functions)

subsection \<open>C8: the same text analysed twice\<close>

text \<open>
  Claim C8, as the source has it. With the client's answer for the settings fixed, a
  second validation of a document returns the diagnostics of the first and leaves the
  state as the first left it. The first validation does write state that the second
  reads: when the client supports configuration and the settings of the document are not
  cached, it stores the resolved settings in \<open>documentSettings\<close>, and nothing else changes;
  the second call finds them there, the same settings. A second completion request
  returns the items of the first and no completion request changes the state; the
  completion handler reads the document store only, so it returns the same items on any
  two states with the same store, among them the states before and after a validation.
\<close>

theorem analysis_repeatable_amended:
  "fst (validateTextDocument positionAt getConfiguration
          (snd (validateTextDocument positionAt getConfiguration st textDocument)) textDocument) =
     fst (validateTextDocument positionAt getConfiguration st textDocument) \<and>
   snd (validateTextDocument positionAt getConfiguration
          (snd (validateTextDocument positionAt getConfiguration st textDocument)) textDocument) =
     snd (validateTextDocument positionAt getConfiguration st textDocument) \<and>
   snd (validateTextDocument positionAt getConfiguration st textDocument) =
     (if hasConfigurationCapability st \<and> documentSettings st (uri textDocument) = None
      then st\<lparr>documentSettings :=
                (documentSettings st)(uri textDocument \<mapsto> getConfiguration (uri textDocument))\<rparr>
      else st) \<and>
   fst (getDocumentSettings getConfiguration
          (snd (validateTextDocument positionAt getConfiguration st textDocument)) (uri textDocument)) =
     fst (getDocumentSettings getConfiguration st (uri textDocument)) \<and>
   fst (completionRequest (snd (completionRequest st textDocumentUri position))
          textDocumentUri position) =
     fst (completionRequest st textDocumentUri position) \<and>
   snd (completionRequest st textDocumentUri position) = st \<and>
   (documents st' = documents st \<longrightarrow>
      onCompletion st' textDocumentUri position = onCompletion st textDocumentUri position) \<and>
   onCompletion (snd (validateTextDocument positionAt getConfiguration st textDocument))
       textDocumentUri position =
     onCompletion st textDocumentUri position"
proof (intro conjI impI)
  show "fst (validateTextDocument positionAt getConfiguration
          (snd (validateTextDocument positionAt getConfiguration st textDocument)) textDocument) =
     fst (validateTextDocument positionAt getConfiguration st textDocument)"
    by (simp add: validateTextDocument_def split_beta getDocumentSettings_again
        getDocumentSettings_frame)
  show "snd (validateTextDocument positionAt getConfiguration
          (snd (validateTextDocument positionAt getConfiguration st textDocument)) textDocument) =
     snd (validateTextDocument positionAt getConfiguration st textDocument)"
    by (simp add: validateTextDocument_def split_beta getDocumentSettings_again)
  show "snd (validateTextDocument positionAt getConfiguration st textDocument) =
     (if hasConfigurationCapability st \<and> documentSettings st (uri textDocument) = None
      then st\<lparr>documentSettings :=
                (documentSettings st)(uri textDocument \<mapsto> getConfiguration (uri textDocument))\<rparr>
      else st)"
    by (rule validateTextDocument_state)
  show "fst (getDocumentSettings getConfiguration
          (snd (validateTextDocument positionAt getConfiguration st textDocument)) (uri textDocument)) =
     fst (getDocumentSettings getConfiguration st (uri textDocument))"
    by (simp add: validateTextDocument_def split_beta getDocumentSettings_again)
  show "fst (completionRequest (snd (completionRequest st textDocumentUri position))
          textDocumentUri position) =
     fst (completionRequest st textDocumentUri position)"
    by (simp add: completionRequest_def)
  show "snd (completionRequest st textDocumentUri position) = st"
    by (simp add: completionRequest_def)
  show "onCompletion st' textDocumentUri position = onCompletion st textDocumentUri position"
    if "documents st' = documents st"
    using that by (simp add: onCompletion_def)
  show "onCompletion (snd (validateTextDocument positionAt getConfiguration st textDocument))
       textDocumentUri position =
     onCompletion st textDocumentUri position"
    by (simp add: validateTextDocument_def split_beta getDocumentSettings_frame onCompletion_def)
qed

theorem analysis_repeatable_amended_witness:
  "documents
     (snd (validateTextDocument (\<lambda>d n. \<lparr>line = 0, character = n\<rparr>) (\<lambda>r. \<lparr>maxNumberOfProblems = 5\<rparr>)
        (initialState\<lparr>documents :=
             [''file:///a.code'' \<mapsto>
                \<lparr>uri = ''file:///a.code'', getText = ''INT y\<newline>FN foo(a)\<newline>END FN''\<rparr>],
           hasConfigurationCapability := True\<rparr>)
        \<lparr>uri = ''file:///a.code'', getText = ''INT y\<newline>FN foo(a)\<newline>END FN''\<rparr>)) =
   documents
     (initialState\<lparr>documents :=
          [''file:///a.code'' \<mapsto>
             \<lparr>uri = ''file:///a.code'', getText = ''INT y\<newline>FN foo(a)\<newline>END FN''\<rparr>],
        hasConfigurationCapability := True\<rparr>) \<and>
   documentSettings
     (snd (validateTextDocument (\<lambda>d n. \<lparr>line = 0, character = n\<rparr>) (\<lambda>r. \<lparr>maxNumberOfProblems = 5\<rparr>)
        (initialState\<lparr>documents :=
             [''file:///a.code'' \<mapsto>
                \<lparr>uri = ''file:///a.code'', getText = ''INT y\<newline>FN foo(a)\<newline>END FN''\<rparr>],
           hasConfigurationCapability := True\<rparr>)
        \<lparr>uri = ''file:///a.code'', getText = ''INT y\<newline>FN foo(a)\<newline>END FN''\<rparr>))
     ''file:///a.code'' = Some \<lparr>maxNumberOfProblems = 5\<rparr> \<and>
   onCompletion
     (snd (validateTextDocument (\<lambda>d n. \<lparr>line = 0, character = n\<rparr>) (\<lambda>r. \<lparr>maxNumberOfProblems = 5\<rparr>)
        (initialState\<lparr>documents :=
             [''file:///a.code'' \<mapsto>
                \<lparr>uri = ''file:///a.code'', getText = ''INT y\<newline>FN foo(a)\<newline>END FN''\<rparr>],
           hasConfigurationCapability := True\<rparr>)
        \<lparr>uri = ''file:///a.code'', getText = ''INT y\<newline>FN foo(a)\<newline>END FN''\<rparr>))
     ''file:///a.code'' \<lparr>line = 0, character = 0\<rparr> =
   Inr (fixedItems @
        [\<lparr>label = ''y'', kind = Variable, detail = Some ''INT''\<rparr>,
         \<lparr>label = ''foo'', kind = Function, detail = None\<rparr>])"
proof -
  let ?pa = "\<lambda>(d :: TextDocument) n. \<lparr>line = 0, character = n\<rparr>"
  let ?cfg = "\<lambda>r :: string. \<lparr>maxNumberOfProblems = 5\<rparr>"
  let ?d = "\<lparr>uri = ''file:///a.code'', getText = ''INT y\<newline>FN foo(a)\<newline>END FN''\<rparr>"
  let ?s = "initialState\<lparr>documents := [''file:///a.code'' \<mapsto> ?d],
              hasConfigurationCapability := True\<rparr>"
  let ?s1 = "snd (validateTextDocument ?pa ?cfg ?s ?d)"
  note inst = analysis_repeatable_amended
    [of ?pa ?cfg ?s ?d "''file:///a.code''" "\<lparr>line = 0, character = 0\<rparr>" ?s1]
  from inst have st: "?s1 =
      (if hasConfigurationCapability ?s \<and> documentSettings ?s (uri ?d) = None
       then ?s\<lparr>documentSettings := (documentSettings ?s)(uri ?d \<mapsto> ?cfg (uri ?d))\<rparr>
       else ?s)"
    by (elim conjE)
  have a: "documents ?s1 = documents ?s"
    by (subst st) (simp add: initialState_def)
  have b: "documentSettings ?s1 ''file:///a.code'' = Some \<lparr>maxNumberOfProblems = 5\<rparr>"
    by (subst st) (simp add: initialState_def)
  from inst a have c: "onCompletion ?s1 ''file:///a.code'' \<lparr>line = 0, character = 0\<rparr> =
      onCompletion ?s ''file:///a.code'' \<lparr>line = 0, character = 0\<rparr>"
    by (elim conjE) simp
  have "onCompletion ?s ''file:///a.code'' \<lparr>line = 0, character = 0\<rparr> =
      Inr (fixedItems @
        [\<lparr>label = ''y'', kind = Variable, detail = Some ''INT''\<rparr>,
         \<lparr>label = ''foo'', kind = Function, detail = None\<rparr>])"
    by (simp add: onCompletion_def sample_variables sample_functions pushVariables_map
        pushFunctions_map)
  with c have d: "onCompletion ?s1 ''file:///a.code'' \<lparr>line = 0, character = 0\<rparr> =
      Inr (fixedItems @
        [\<lparr>label = ''y'', kind = Variable, detail = Some ''INT''\<rparr>,
         \<lparr>label = ''foo'', kind = Function, detail = None\<rparr>])"
    by simp
  from a b d show ?thesis by (intro conjI)
qed

text \<open>
  Against C8 as stated (neither call mutates any state that the other reads): the first
  validation stores the settings 5 for the document where none were cached, and a call
  that follows reads them there, whatever the client would answer now (7), where on the
  state before it would have taken the client's answer.
\<close>

theorem validation_writes_settings_cache_counterexample:
  "documentSettings (initialState\<lparr>hasConfigurationCapability := True\<rparr>) ''file:///a.code'' = None \<and>
   documentSettings
     (snd (validateTextDocument (\<lambda>d n. \<lparr>line = 0, character = n\<rparr>) (\<lambda>r. \<lparr>maxNumberOfProblems = 5\<rparr>)
        (initialState\<lparr>hasConfigurationCapability := True\<rparr>)
        \<lparr>uri = ''file:///a.code'', getText = ''ABC''\<rparr>))
     ''file:///a.code'' = Some \<lparr>maxNumberOfProblems = 5\<rparr> \<and>
   fst (getDocumentSettings (\<lambda>r. \<lparr>maxNumberOfProblems = 7\<rparr>)
          (initialState\<lparr>hasConfigurationCapability := True\<rparr>) ''file:///a.code'') =
     \<lparr>maxNumberOfProblems = 7\<rparr> \<and>
   fst (getDocumentSettings (\<lambda>r. \<lparr>maxNumberOfProblems = 7\<rparr>)
          (snd (validateTextDocument (\<lambda>d n. \<lparr>line = 0, character = n\<rparr>)
             (\<lambda>r. \<lparr>maxNumberOfProblems = 5\<rparr>)
             (initialState\<lparr>hasConfigurationCapability := True\<rparr>)
             \<lparr>uri = ''file:///a.code'', getText = ''ABC''\<rparr>))
          ''file:///a.code'') =
     \<lparr>maxNumberOfProblems = 5\<rparr>"
  by (simp add: validateTextDocument_state getDocumentSettings_def initialState_def Let_def)

subsection \<open>C9: an unknown document, and scans that never raise\<close>

text \<open>
  Claim C9. A diagnostics pull for a URI that the document store does not hold returns a
  full report with no items, and the state is as it was. Whatever the store holds, the
  handler returns a full report; and on every document text
  \<open>extractFunctionDeclarations\<close>, \<open>extractVariableDeclarations\<close> and the completion
  handler return a result (\<open>Inr\<close>), never one of the errors of type \<open>error\<close>.
\<close>

theorem unknown_document_empty_report:
  "(documents st textDocumentUri = None \<longrightarrow>
      diagnosticsOn positionAt getConfiguration st textDocumentUri =
        (\<lparr>reportKind = Full, items = []\<rparr>, st)) \<and>
   (\<exists>ds st'. diagnosticsOn positionAt getConfiguration st textDocumentUri =
        (\<lparr>reportKind = Full, items = ds\<rparr>, st')) \<and>
   (\<exists>fs. extractFunctionDeclarations document = Inr fs) \<and>
   (\<exists>vs. extractVariableDeclarations document = Inr vs) \<and>
   (\<exists>cs. onCompletion st textDocumentUri position = Inr cs)"
proof (intro conjI)
  show "documents st textDocumentUri = None \<longrightarrow>
      diagnosticsOn positionAt getConfiguration st textDocumentUri =
        (\<lparr>reportKind = Full, items = []\<rparr>, st)"
    by (simp add: diagnosticsOn_def)
  show "\<exists>ds st'. diagnosticsOn positionAt getConfiguration st textDocumentUri =
        (\<lparr>reportKind = Full, items = ds\<rparr>, st')"
    by (simp add: diagnosticsOn_def split: option.split prod.split)
  show "\<exists>fs. extractFunctionDeclarations document = Inr fs"
    by (rule extractFunctionDeclarations_total)
  show "\<exists>vs. extractVariableDeclarations document = Inr vs"
    by (rule extractVariableDeclarations_total)
  show "\<exists>cs. onCompletion st textDocumentUri position = Inr cs"
  proof (cases "documents st textDocumentUri")
    case None
    then show ?thesis by (simp add: onCompletion_def)
  next
    case (Some d)
    from extractVariableDeclarations_total [of d] obtain vs
      where "extractVariableDeclarations d = Inr vs" ..
    moreover from extractFunctionDeclarations_total [of d] obtain fs
      where "extractFunctionDeclarations d = Inr fs" ..
    ultimately show ?thesis using Some by (simp add: onCompletion_def)
  qed
qed

theorem unknown_document_empty_report_witness:
  "documents initialState ''file:///unknown.code'' = None \<and>
   diagnosticsOn (\<lambda>d n. \<lparr>line = 0, character = n\<rparr>) (\<lambda>r. defaultSettings) initialState
       ''file:///unknown.code'' =
     (\<lparr>reportKind = Full, items = []\<rparr>, initialState)"
  using unknown_document_empty_report
    [of initialState "''file:///unknown.code''" "\<lambda>d n. \<lparr>line = 0, character = n\<rparr>"
        "\<lambda>r. defaultSettings"]
  by (simp add: initialState_def)

subsection \<open>C10: an empty parameter list\<close>

text \<open>
  Claim C10. When the header pattern matches a line with nothing between the parentheses
  (its second group is the empty string), no body line has a typed parameter, and a line
  \<^verbatim>\<open>END FN\<close> closes the function, the symbol emitted for it has the parameter list
  that holds the empty string once, not the empty list: the empty text split at commas is
  one empty token.
\<close>

theorem empty_parameter_list:
  assumes "documentLines document = pre @ h # body @ e # post"
    and "scanLines scanStart pre = Inr st" and "\<not> isInFunction st"
    and "regexExec True functionStartRegex h 0 = Some m"
    and "capture h m 1 = Some nm" and "capture h m 2 = Some []"
    and "\<forall>b\<in>set body. trim b \<noteq> ''END FN'' \<and> bodyParams b = []"
    and "trim e = ''END FN''"
  shows "\<exists>fs. extractFunctionDeclarations document =
     Inr (functionDeclarations st @ \<lparr>name = nm, params = [[]]\<rparr> # fs)"
proof -
  from assms(7) have nb: "\<forall>b\<in>set body. trim b \<noteq> ''END FN''"
    and np: "concat (map bodyParams body) = []" by simp_all
  let ?st1 = "st\<lparr>functionDeclarations := functionDeclarations st @ [\<lparr>name = nm, params = [[]]\<rparr>],
                 functionName := [], functionParams := [], isInFunction := False\<rparr>"
  from scanLines_block [OF assms(3,4,5,6) nb assms(8)] np
  have blk: "scanLines st (h # body @ [e]) = Inr ?st1" by (simp add: split_on_def trim_def)
  from scanLines_total [of ?st1 post] obtain st2 where post: "scanLines ?st1 post = Inr st2" ..
  from scanLines_only_appends [OF post] obtain fs
    where fs: "functionDeclarations st2 = functionDeclarations st @ \<lparr>name = nm, params = [[]]\<rparr> # fs"
    by auto
  have "pre @ h # body @ e # post = pre @ (h # body @ [e]) @ post" by simp
  then have "scanLines scanStart (documentLines document) = Inr st2"
    using assms(1,2) blk post by (simp only: scanLines_append sum.case)
  with fs show ?thesis by (simp add: extractFunctionDeclarations_def)
qed

theorem empty_parameter_list_witness:
  "extractFunctionDeclarations \<lparr>uri = ''file:///a.code'', getText = ''FN foo()\<newline>END FN''\<rparr> =
     Inr [\<lparr>name = ''foo'', params = [[]]\<rparr>]"
proof -
  let ?m = "\<lparr>index = 0, endIndex = 8, groups = [(2, 7, 7), (1, 3, 6)]\<rparr>"
  have a: "documentLines \<lparr>uri = ''file:///a.code'', getText = ''FN foo()\<newline>END FN''\<rparr> =
      [] @ ''FN foo()'' # [] @ ''END FN'' # []"
    by (simp add: documentLines_def split_on_def)
  have b: "scanLines scanStart [] = Inr scanStart" by simp
  have c: "\<not> isInFunction scanStart" by (simp add: scanStart_def)
  have d: "regexExec True functionStartRegex ''FN foo()'' 0 = Some ?m" by code_simp
  have e: "capture ''FN foo()'' ?m 1 = Some ''foo''" by (simp add: capture_def)
  have f: "capture ''FN foo()'' ?m 2 = Some []" by (simp add: capture_def)
  have g: "\<forall>b\<in>set []. trim b \<noteq> ''END FN'' \<and> bodyParams b = []" by simp
  have h: "trim ''END FN'' = ''END FN''" by (simp add: trim_def isSpace_def)
  from empty_parameter_list [OF a b c d e f g h] obtain fs where
    r: "extractFunctionDeclarations \<lparr>uri = ''file:///a.code'', getText = ''FN foo()\<newline>END FN''\<rparr> =
     Inr (functionDeclarations scanStart @ \<lparr>name = ''foo'', params = [[]]\<rparr> # fs)" ..
  have "extractFunctionDeclarations \<lparr>uri = ''file:///a.code'', getText = ''FN foo()\<newline>END FN''\<rparr> =
     Inr [\<lparr>name = ''foo'', params = [[]]\<rparr>]" by code_simp
  with r show ?thesis by simp
qed

end
